theory Spec2Isabelle
  imports Main
begin

section \<open>The code analyzer of BARF (barf/analysis/codeanalyzer/codeanalyzer.py)\<close>

text \<open>
  The module drives two collaborators, an SMT translator and an SMT solver, and reads an
  architecture descriptor. None of the three is defined in the module: the translator and
  the solver are taken as parameters (a record of their operations), the expressions they
  build are recorded as terms, and every call the analyzer makes on them that a property
  speaks about is recorded, in order, in a trace.
\<close>

subsection \<open>Errors\<close>

text \<open>
  The exceptions the module can raise itself: a failed \<^verbatim>\<open>assert\<close>, the two
  \<^verbatim>\<open>raise Exception(...)\<close> statements (the message is kept, empty for
  \<^verbatim>\<open>Exception()\<close>), a missing dictionary key and an index out of range.
\<close>

datatype error =
    AssertionError
  | Exception string
  | KeyError string
  | IndexError

subsection \<open>REIL operands, instructions and basic blocks\<close>

text \<open>
  The classes of \<^verbatim>\<open>barf.core.reil\<close> are imported by the module, not defined
  in it. An operand is a register operand (name, size), an immediate operand (immediate,
  size), or any other object (kept with its \<^verbatim>\<open>str\<close>); of the mnemonics only
  \<^verbatim>\<open>JCC\<close> is told apart. Integers are Python's, unbounded. Where several classes
  have an attribute of the same name (\<^verbatim>\<open>address\<close>, \<^verbatim>\<open>size\<close>,
  \<^verbatim>\<open>name\<close>, \<^verbatim>\<open>value\<close>), the fields carry a prefix.
\<close>

datatype ReilOperand =
    ReilRegisterOperand string int
  | ReilImmediateOperand int int
  | OtherOperand string

datatype ReilMnemonic = JCC | OtherMnemonic string

record ReilInstruction =
  reil_address :: int
  mnemonic :: ReilMnemonic
  operands :: "ReilOperand list"

text \<open>
  A dual instruction: the native instruction's address, the size of its encoding
  (\<^verbatim>\<open>dinstr.asm_instr.size\<close>) and its REIL instructions.
\<close>

record DualInstruction =
  di_address :: int
  asm_instr_size :: int
  ir_instrs :: "ReilInstruction list"

text \<open>
  A basic block; iterating over it yields its dual instructions. A branch field that is
  \<^verbatim>\<open>None\<close> is \<open>None\<close> here and equals no address.
\<close>

record BasicBlock =
  bb_address :: int
  end_address :: int
  instrs :: "DualInstruction list"
  taken_branch :: "int option"
  not_taken_branch :: "int option"
  direct_branch :: "int option"

subsection \<open>SMT expressions\<close>

text \<open>
  The expressions the analyzer builds, one constructor for each way the module builds
  one: \<^verbatim>\<open>translator.make_bitvec(size, name)\<close>,
  \<^verbatim>\<open>smtsymbol.Constant(size, value)\<close>,
  \<^verbatim>\<open>smtfunction.extract(e, offset, size)\<close>,
  \<^verbatim>\<open>smtfunction.concat(size, *args)\<close>, the indexing \<^verbatim>\<open>mem[addr]\<close> and the
  comparison \<^verbatim>\<open>e == value\<close>. \<open>Ext\<close> holds what the translator builds by itself.
\<close>

datatype 'x smt =
    Ext 'x
  | BitVec int string
  | Constant int int
  | Extract "'x smt" int int
  | Concat int "'x smt list"
  | Select "'x smt" int
  | Eq "'x smt" int

subsection \<open>Collaborators\<close>

text \<open>
  What the analyzer does to its collaborators, oldest call first: an instruction handed to
  \<^verbatim>\<open>translator.translate\<close>, an assertion handed to \<^verbatim>\<open>solver.add\<close>, a
  call of \<^verbatim>\<open>solver.check\<close>, and a \<^verbatim>\<open>logger.error\<close> line (with the
  native address and the REIL instruction it reports). Informational logging is not
  recorded.
\<close>

datatype 'x event =
    Translate ReilInstruction
  | SolverAdd "'x smt"
  | SolverCheck
  | LogError int ReilInstruction

text \<open>
  The operations of the translator and of the solver. \<open>'ts\<close> is the translator's own
  state (its naming and versioning); only \<^verbatim>\<open>translate\<close> changes it. The solver
  answers \<^verbatim>\<open>check\<close> from everything that has happened so far. Every operation
  is taken to return: exceptions raised inside the translator or the solver are outside
  this module and are not modelled.
\<close>

record ('ts, 'x) collaborators =
  t_translate :: "'ts \<Rightarrow> ReilInstruction \<Rightarrow> 'x smt list \<times> 'ts"
  t_translate_src_oprnd :: "'ts \<Rightarrow> ReilOperand \<Rightarrow> 'x smt"
  t_get_init_name :: "'ts \<Rightarrow> string \<Rightarrow> string"
  t_get_curr_name :: "'ts \<Rightarrow> string \<Rightarrow> string"
  t_get_memory :: "'ts \<Rightarrow> 'x smt"
  t_get_memory_init :: "'ts \<Rightarrow> 'x smt"
  s_check :: "'x event list \<Rightarrow> string"

text \<open>The architecture descriptor: three read-only tables.\<close>

record ArchitectureInformation =
  registers_all :: "string set"
  registers_size :: "string \<rightharpoonup> int"
  alias_mapper :: "string \<rightharpoonup> string \<times> int"

subsection \<open>Contexts\<close>

text \<open>
  Registers and flags as a context holds them when it is handed to
  \<^verbatim>\<open>set_context\<close>: with a size and a value (the constructors' default
  \<^verbatim>\<open>None\<close> is not modelled).
\<close>

record GenericRegister =
  reg_name :: string
  reg_size :: int
  reg_value :: int

record GenericFlag =
  flag_name :: string
  flag_value :: int

text \<open>
  The three dictionaries of a context, as association lists in the order
  \<^verbatim>\<open>items()\<close> yields them.
\<close>

record GenericContext =
  registers :: "(string \<times> GenericRegister) list"
  flags :: "(string \<times> GenericFlag) list"
  memory :: "(int \<times> int) list"

text \<open>The analyzer: its stored context, the translator's state and the trace.\<close>

record ('ts, 'x) CodeAnalyzer =
  stored_context :: "GenericContext option"
  tstate :: "'ts"
  trace :: "'x event list"

subsection \<open>Operand and expression resolution\<close>

definition get_var_name ::
  "('ts, 'x) collaborators \<Rightarrow> 'ts \<Rightarrow> string \<Rightarrow> string \<Rightarrow> error + string" where
  "get_var_name ops ts register_name mode =
     (if mode = ''pre'' then Inr (t_get_init_name ops ts register_name)
      else if mode = ''post'' then Inr (t_get_curr_name ops ts register_name)
      else Inl (Exception ''''))"

text \<open>\<^verbatim>\<open>d[k]\<close> on a dictionary: a missing key raises.\<close>

definition lookup :: "(string \<rightharpoonup> 'v) \<Rightarrow> string \<Rightarrow> error + 'v" where
  "lookup d k = (case d k of None \<Rightarrow> Inl (KeyError k) | Some v \<Rightarrow> Inr v)"

text \<open>
  Sequencing of steps that may raise: the first exception ends the computation. A result
  \<open>Inl e\<close> is the exception \<open>e\<close> leaving the function; what the function had done to
  the analyzer before is not part of the result.
\<close>

definition bind :: "error + 'a \<Rightarrow> ('a \<Rightarrow> error + 'b) \<Rightarrow> error + 'b" where
  "bind m f = (case m of Inl e \<Rightarrow> Inl e | Inr v \<Rightarrow> f v)"

definition get_register_expr ::
  "('ts, 'x) collaborators \<Rightarrow> ArchitectureInformation \<Rightarrow> 'ts \<Rightarrow> string \<Rightarrow> string
     \<Rightarrow> error + 'x smt" where
  "get_register_expr ops arch ts register_name mode =
     (case alias_mapper arch register_name of
        Some (var_base_name, offset) \<Rightarrow>
          bind (get_var_name ops ts var_base_name mode) (\<lambda>var_name.
          bind (lookup (registers_size arch) var_base_name) (\<lambda>var_size.
          bind (lookup (registers_size arch) register_name) (\<lambda>alias_size.
          Inr (Extract (BitVec var_size var_name) offset alias_size))))
      | None \<Rightarrow>
          bind (get_var_name ops ts register_name mode) (\<lambda>var_name.
          bind (lookup (registers_size arch) register_name) (\<lambda>var_size.
          Inr (BitVec var_size var_name))))"

definition get_immediate_expr :: "int \<Rightarrow> int \<Rightarrow> 'x smt" where
  "get_immediate_expr immediate sz = Constant sz immediate"

fun get_operand_expr ::
  "('ts, 'x) collaborators \<Rightarrow> ArchitectureInformation \<Rightarrow> 'ts \<Rightarrow> ReilOperand \<Rightarrow> string
     \<Rightarrow> error + 'x smt" where
  "get_operand_expr ops arch ts (ReilRegisterOperand name sz) mode =
     (if name \<in> registers_all arch then get_register_expr ops arch ts name mode
      else bind (get_var_name ops ts name mode) (\<lambda>var_name.
           Inr (BitVec sz var_name)))"
| "get_operand_expr ops arch ts (ReilImmediateOperand immediate sz) mode =
     Inr (get_immediate_expr immediate sz)"
| "get_operand_expr ops arch ts (OtherOperand str) mode =
     Inl (Exception (''Invalid operand: '' @ str))"

definition get_memory ::
  "('ts, 'x) collaborators \<Rightarrow> 'ts \<Rightarrow> string \<Rightarrow> error + 'x smt" where
  "get_memory ops ts mode =
     (if mode = ''pre'' then Inr (t_get_memory_init ops ts)
      else if mode = ''post'' then Inr (t_get_memory ops ts)
      else Inl (Exception ''''))"

text \<open>
  The loop of \<^verbatim>\<open>get_memory_expr\<close> over \<^verbatim>\<open>xrange(0, size)\<close>, appending one
  read to \<^verbatim>\<open>bytes_exprs\<close> for each index.
\<close>

fun memory_reads :: "'x smt \<Rightarrow> int \<Rightarrow> int list \<Rightarrow> 'x smt list \<Rightarrow> 'x smt list" where
  "memory_reads mem address [] bytes_exprs = bytes_exprs"
| "memory_reads mem address (index # rest) bytes_exprs =
     memory_reads mem address rest (bytes_exprs @ [Select mem (address + index)])"

definition get_memory_expr ::
  "('ts, 'x) collaborators \<Rightarrow> 'ts \<Rightarrow> int \<Rightarrow> int \<Rightarrow> string \<Rightarrow> error + 'x smt" where
  "get_memory_expr ops ts address sz mode =
     bind (get_memory ops ts mode) (\<lambda>mem.
     Inr (Concat 8 (rev (memory_reads mem address [0 .. sz - 1] []))))"

subsection \<open>Adding assertions\<close>

text \<open>\<^verbatim>\<open>solver.add\<close>, which \<^verbatim>\<open>add_constraint\<close> forwards to.\<close>

definition solver_add :: "'x smt \<Rightarrow> ('ts, 'x) CodeAnalyzer \<Rightarrow> ('ts, 'x) CodeAnalyzer" where
  "solver_add e an = an\<lparr>trace := trace an @ [SolverAdd e]\<rparr>"

definition add_constraint :: "('ts, 'x) CodeAnalyzer \<Rightarrow> 'x smt \<Rightarrow> ('ts, 'x) CodeAnalyzer" where
  "add_constraint an constraint = solver_add constraint an"

definition get_operand_var ::
  "('ts, 'x) collaborators \<Rightarrow> ('ts, 'x) CodeAnalyzer \<Rightarrow> ReilOperand \<Rightarrow> 'x smt" where
  "get_operand_var ops an operand = t_translate_src_oprnd ops (tstate an) operand"

text \<open>The loop \<^verbatim>\<open>for smt_expr in smt_exprs: solver.add(smt_expr)\<close>.\<close>

fun add_exprs :: "('ts, 'x) CodeAnalyzer \<Rightarrow> 'x smt list \<Rightarrow> ('ts, 'x) CodeAnalyzer" where
  "add_exprs an [] = an"
| "add_exprs an (smt_expr # rest) = add_exprs (solver_add smt_expr an) rest"

text \<open>
  \<^verbatim>\<open>add_instruction\<close>, and the same two lines at the end of the body of the
  instruction loop of \<^verbatim>\<open>check_path_satisfiability\<close>: translate, then add
  every expression returned.
\<close>

definition add_instruction ::
  "('ts, 'x) collaborators \<Rightarrow> ('ts, 'x) CodeAnalyzer \<Rightarrow> ReilInstruction
     \<Rightarrow> ('ts, 'x) CodeAnalyzer" where
  "add_instruction ops an reil_instruction =
     (case t_translate ops (tstate an) reil_instruction of
        (smt_exprs, ts') \<Rightarrow>
          add_exprs (an\<lparr>tstate := ts', trace := trace an @ [Translate reil_instruction]\<rparr>)
            smt_exprs)"

subsection \<open>Context lowering\<close>

text \<open>The three loops of \<^verbatim>\<open>set_context\<close>.\<close>

fun add_registers ::
  "('ts, 'x) collaborators \<Rightarrow> ('ts, 'x) CodeAnalyzer \<Rightarrow> (string \<times> GenericRegister) list
     \<Rightarrow> ('ts, 'x) CodeAnalyzer" where
  "add_registers ops an [] = an"
| "add_registers ops an ((k, gen_reg) # rest) =
     (let smt_reg = BitVec (reg_size gen_reg) (t_get_init_name ops (tstate an) (reg_name gen_reg))
      in add_registers ops (solver_add (Eq smt_reg (reg_value gen_reg)) an) rest)"

fun add_flags ::
  "('ts, 'x) collaborators \<Rightarrow> ('ts, 'x) CodeAnalyzer \<Rightarrow> (string \<times> GenericFlag) list
     \<Rightarrow> ('ts, 'x) CodeAnalyzer" where
  "add_flags ops an [] = an"
| "add_flags ops an ((k, gen_flag) # rest) =
     (let smt_flag = BitVec 32 (t_get_init_name ops (tstate an) (flag_name gen_flag))
      in add_flags ops (solver_add (Eq smt_flag (flag_value gen_flag)) an) rest)"

fun add_memory ::
  "'x smt \<Rightarrow> ('ts, 'x) CodeAnalyzer \<Rightarrow> (int \<times> int) list \<Rightarrow> ('ts, 'x) CodeAnalyzer" where
  "add_memory mem an [] = an"
| "add_memory mem an ((addr, val) # rest) =
     add_memory mem (solver_add (Eq (Select mem addr) val) an) rest"

definition set_context ::
  "('ts, 'x) collaborators \<Rightarrow> ('ts, 'x) CodeAnalyzer \<Rightarrow> GenericContext
     \<Rightarrow> ('ts, 'x) CodeAnalyzer" where
  "set_context ops an ctx =
     (let an1 = an\<lparr>stored_context := Some ctx\<rparr>;
          an2 = add_registers ops an1 (registers ctx);
          an3 = add_flags ops an2 (flags ctx);
          mem = t_get_memory ops (tstate an3)
      in add_memory mem an3 (memory ctx))"

subsection \<open>Path satisfiability\<close>

text \<open>
  The \<^verbatim>\<open>if\<close>/\<^verbatim>\<open>elif\<close>/\<^verbatim>\<open>else: continue\<close> that sets
  \<^verbatim>\<open>branch_var_goal\<close>: \<open>None\<close> is the \<^verbatim>\<open>continue\<close>.
\<close>

definition branch_var_goal :: "BasicBlock \<Rightarrow> BasicBlock \<Rightarrow> int option" where
  "branch_var_goal bb_curr bb_next =
     (if taken_branch bb_curr = Some (bb_address bb_next) then Some 1
      else if not_taken_branch bb_curr = Some (bb_address bb_next) then Some 0
      else None)"

text \<open>
  The innermost loop of \<^verbatim>\<open>check_path_satisfiability\<close>, over the REIL
  instructions of one dual instruction. \<^verbatim>\<open>continue\<close> goes on with the rest of
  the list; \<^verbatim>\<open>break\<close> leaves this loop only, and nothing follows the loop in the
  body of the enclosing one, so it returns the state. The \<^verbatim>\<open>assert\<close> raises
  when none of the three branch fields is the next block's address (assertions are on, as
  they are unless Python is started with \<^verbatim>\<open>-O\<close>). A JCC instruction is
  never handed to the translator: every way through its branch ends in
  \<^verbatim>\<open>continue\<close>, \<^verbatim>\<open>break\<close> or an exception.
\<close>

fun reil_loop ::
  "('ts, 'x) collaborators \<Rightarrow> BasicBlock \<Rightarrow> BasicBlock \<Rightarrow> DualInstruction
     \<Rightarrow> ('ts, 'x) CodeAnalyzer \<Rightarrow> ReilInstruction list \<Rightarrow> error + ('ts, 'x) CodeAnalyzer" where
  "reil_loop ops bb_curr bb_next dinstr an [] = Inr an"
| "reil_loop ops bb_curr bb_next dinstr an (reil_instr # rest) =
     (if mnemonic reil_instr = JCC then
        if di_address dinstr + asm_instr_size dinstr - 1 \<noteq> end_address bb_curr then
          reil_loop ops bb_curr bb_next dinstr
            (an\<lparr>trace := trace an @ [LogError (di_address dinstr) reil_instr]\<rparr>) rest
        else if \<not> (taken_branch bb_curr = Some (bb_address bb_next) \<or>
                   not_taken_branch bb_curr = Some (bb_address bb_next) \<or>
                   direct_branch bb_curr = Some (bb_address bb_next)) then
          Inl AssertionError
        else
          (case branch_var_goal bb_curr bb_next of
             None \<Rightarrow> reil_loop ops bb_curr bb_next dinstr an rest
           | Some goal \<Rightarrow>
               (case operands reil_instr of
                  [] \<Rightarrow> Inl IndexError
                | operand # _ \<Rightarrow>
                    Inr (add_constraint an (Eq (get_operand_var ops an operand) goal))))
      else
        reil_loop ops bb_curr bb_next dinstr (add_instruction ops an reil_instr) rest)"

text \<open>
  The loop over the dual instructions of the current block. The flag
  \<^verbatim>\<open>start_instr_found\<close> is a local variable of the whole call; it is passed in
  and handed back. An instruction is passed over when the flag is not set and its address
  is not \<^verbatim>\<open>start_address\<close>; otherwise the flag is set (or stays set) and the
  instruction is processed.
\<close>

fun dinstr_loop ::
  "('ts, 'x) collaborators \<Rightarrow> int \<Rightarrow> BasicBlock \<Rightarrow> BasicBlock
     \<Rightarrow> bool \<Rightarrow> ('ts, 'x) CodeAnalyzer \<Rightarrow> DualInstruction list
     \<Rightarrow> error + bool \<times> ('ts, 'x) CodeAnalyzer" where
  "dinstr_loop ops start_address bb_curr bb_next start_instr_found an [] =
     Inr (start_instr_found, an)"
| "dinstr_loop ops start_address bb_curr bb_next start_instr_found an (dinstr # rest) =
     (if \<not> start_instr_found \<and> di_address dinstr \<noteq> start_address then
        dinstr_loop ops start_address bb_curr bb_next start_instr_found an rest
      else
        bind (reil_loop ops bb_curr bb_next dinstr an (ir_instrs dinstr)) (\<lambda>an'.
        dinstr_loop ops start_address bb_curr bb_next True an' rest))"

text \<open>
  The outer loop, over the pairs of consecutive blocks, with the variable
  \<^verbatim>\<open>sat\<close>: after the instructions of the current block, one
  \<^verbatim>\<open>solver.check()\<close>, compared with \<^verbatim>\<open>'sat'\<close>.
\<close>

fun block_loop ::
  "('ts, 'x) collaborators \<Rightarrow> int \<Rightarrow> bool \<Rightarrow> bool \<Rightarrow> ('ts, 'x) CodeAnalyzer
     \<Rightarrow> (BasicBlock \<times> BasicBlock) list \<Rightarrow> error + bool \<times> ('ts, 'x) CodeAnalyzer" where
  "block_loop ops start_address start_instr_found sat an [] = Inr (sat, an)"
| "block_loop ops start_address start_instr_found sat an ((bb_curr, bb_next) # rest) =
     bind (dinstr_loop ops start_address bb_curr bb_next start_instr_found an (instrs bb_curr))
       (\<lambda>(found', an').
          let sat' = (s_check ops (trace an') = ''sat'');
              an'' = an'\<lparr>trace := trace an' @ [SolverCheck]\<rparr>
          in if \<not> sat' then Inr (sat', an'')
             else block_loop ops start_address found' sat' an'' rest)"

definition check_path_satisfiability ::
  "('ts, 'x) collaborators \<Rightarrow> ('ts, 'x) CodeAnalyzer \<Rightarrow> BasicBlock list \<Rightarrow> int
     \<Rightarrow> error + bool \<times> ('ts, 'x) CodeAnalyzer" where
  "check_path_satisfiability ops an path start_address =
     block_loop ops start_address False False an (zip (butlast path) (tl path))"

subsection \<open>The fold as the specification words it\<close>

text \<open>
  The specification's account of the path check, to be compared with the loops above; it
  has no flag and never looks at an address. Its step 2: every native instruction of a
  list is gone through, in order, each with the instruction loop.
\<close>

fun spec_translate_all ::
  "('ts, 'x) collaborators \<Rightarrow> BasicBlock \<Rightarrow> BasicBlock \<Rightarrow> ('ts, 'x) CodeAnalyzer
     \<Rightarrow> DualInstruction list \<Rightarrow> error + ('ts, 'x) CodeAnalyzer" where
  "spec_translate_all ops current next an [] = Inr an"
| "spec_translate_all ops current next an (d # ds) =
     bind (reil_loop ops current next d an (ir_instrs d)) (\<lambda>an'.
     spec_translate_all ops current next an' ds)"

text \<open>
  Its steps 3 and 4, over a list of entries (the native instructions to go through, the
  current block, the next block): after the instructions of an entry one check; on an
  answer other than \<^verbatim>\<open>sat\<close> the fold stops with \<open>False\<close>, otherwise it goes on
  with the next entry.
\<close>

fun spec_fold ::
  "('ts, 'x) collaborators \<Rightarrow> ('ts, 'x) CodeAnalyzer \<Rightarrow> bool
     \<Rightarrow> (DualInstruction list \<times> BasicBlock \<times> BasicBlock) list
     \<Rightarrow> error + bool \<times> ('ts, 'x) CodeAnalyzer" where
  "spec_fold ops an sat [] = Inr (sat, an)"
| "spec_fold ops an sat ((ds, current, next) # rest) =
     bind (spec_translate_all ops current next an ds) (\<lambda>an'.
       let sat' = (s_check ops (trace an') = ''sat'');
           an'' = an'\<lparr>trace := trace an' @ [SolverCheck]\<rparr>
       in if \<not> sat' then Inr (False, an'') else spec_fold ops an'' sat' rest)"

text \<open>
  The specification's recovery for a conditional branch that is not at the end of the
  block, as one step on an instruction of the native instruction \<open>d\<close>: a JCC is logged as
  an error and nothing else is done for it; any other instruction is translated and its
  assertions are added.
\<close>

definition spec_log_or_translate ::
  "('ts, 'x) collaborators \<Rightarrow> DualInstruction \<Rightarrow> ('ts, 'x) CodeAnalyzer \<Rightarrow> ReilInstruction
     \<Rightarrow> ('ts, 'x) CodeAnalyzer" where
  "spec_log_or_translate ops d an r =
     (if mnemonic r = JCC then an\<lparr>trace := trace an @ [LogError (di_address d) r]\<rparr>
      else add_instruction ops an r)"

subsection \<open>The value of a concatenation\<close>

text \<open>
  Modelled from the spec: \<^verbatim>\<open>smtfunction.concat\<close> is not part of the module; the
  specification says that its arguments are concatenated most-significant first. The value
  of a concatenation of fields \<open>sz\<close> bits wide, from the values of its arguments in the
  order they are passed.
\<close>

definition concat_value :: "int \<Rightarrow> int list \<Rightarrow> int" where
  "concat_value sz vals = foldl (\<lambda>acc v. acc * 2 ^ nat sz + v) 0 vals"

subsection \<open>Sample collaborators and a sample program\<close>

text \<open>
  A translator that turns every instruction into one assertion named after its mnemonic
  and counts the instructions it has translated, with the names \<open>r_0\<close> and \<open>r_1\<close> for
  the initial and the current version of a register \<open>r\<close>; a solver that answers
  \<^verbatim>\<open>unsat\<close> once the assertion \<open>false\<close> has been added. The blocks: \<open>block_a\<close>
  ends in a conditional jump to \<open>block_b\<close> that falls through to \<open>block_d\<close>,
  \<open>block_j\<close> ends in a jump to \<open>block_b\<close> that is encoded as a JCC, and \<open>d_early\<close> is a
  native instruction with a JCC that does not end its block, \<open>block_e\<close>, which goes on
  with \<open>d_tail\<close>.
\<close>

definition demo_ops :: "(nat, string) collaborators" where
  "demo_ops =
     \<lparr>t_translate = (\<lambda>ts r. ([Ext (case mnemonic r of JCC \<Rightarrow> ''jcc'' | OtherMnemonic m \<Rightarrow> m)], Suc ts)),
      t_translate_src_oprnd = (\<lambda>ts operand. case operand of
          ReilRegisterOperand name sz \<Rightarrow> BitVec sz (name @ ''_1'')
        | ReilImmediateOperand v sz \<Rightarrow> Constant sz v
        | OtherOperand s \<Rightarrow> Ext s),
      t_get_init_name = (\<lambda>ts name. name @ ''_0''),
      t_get_curr_name = (\<lambda>ts name. name @ ''_1''),
      t_get_memory = (\<lambda>ts. Ext ''MEM_1''),
      t_get_memory_init = (\<lambda>ts. Ext ''MEM_0''),
      s_check = (\<lambda>tr. if SolverAdd (Ext ''false'') \<in> set tr then ''unsat'' else ''sat'')\<rparr>"

definition demo_arch :: ArchitectureInformation where
  "demo_arch =
     \<lparr>registers_all = {''eax'', ''ax'', ''ebx''},
      registers_size = [''eax'' \<mapsto> 32, ''ax'' \<mapsto> 16, ''ebx'' \<mapsto> 32],
      alias_mapper = [''ax'' \<mapsto> (''eax'', 0)]\<rparr>"

definition demo_an :: "(nat, string) CodeAnalyzer" where
  "demo_an = \<lparr>stored_context = None, tstate = 0, trace = []\<rparr>"

definition demo_context :: GenericContext where
  "demo_context =
     \<lparr>registers = [(''eax'', \<lparr>reg_name = ''eax'', reg_size = 32, reg_value = 5\<rparr>)],
      flags = [(''zf'', \<lparr>flag_name = ''zf'', flag_value = 1\<rparr>)],
      memory = [(4096, 255), (4097, 1)]\<rparr>"

definition i_add :: ReilInstruction where
  "i_add = \<lparr>reil_address = 2560, mnemonic = OtherMnemonic ''add'',
            operands = [ReilRegisterOperand ''eax'' 32, ReilImmediateOperand 1 32,
                        ReilRegisterOperand ''eax'' 32]\<rparr>"

definition i_false :: ReilInstruction where
  "i_false = \<lparr>reil_address = 5120, mnemonic = OtherMnemonic ''false'', operands = []\<rparr>"

definition i_sub :: ReilInstruction where
  "i_sub = \<lparr>reil_address = 5632, mnemonic = OtherMnemonic ''sub'',
            operands = [ReilRegisterOperand ''ebx'' 32, ReilImmediateOperand 1 32,
                        ReilRegisterOperand ''ebx'' 32]\<rparr>"

definition i_jcc :: ReilInstruction where
  "i_jcc = \<lparr>reil_address = 3072, mnemonic = JCC,
            operands = [ReilRegisterOperand ''t0'' 1, OtherOperand ''empty'',
                        ReilImmediateOperand 20 32]\<rparr>"

definition d_add :: DualInstruction where
  "d_add = \<lparr>di_address = 10, asm_instr_size = 2, ir_instrs = [i_add]\<rparr>"

definition d_jcc :: DualInstruction where
  "d_jcc = \<lparr>di_address = 12, asm_instr_size = 2, ir_instrs = [i_sub, i_jcc]\<rparr>"

definition d_early :: DualInstruction where
  "d_early = \<lparr>di_address = 10, asm_instr_size = 2, ir_instrs = [i_jcc, i_add]\<rparr>"

definition d_false :: DualInstruction where
  "d_false = \<lparr>di_address = 20, asm_instr_size = 2, ir_instrs = [i_false]\<rparr>"

definition d_sub :: DualInstruction where
  "d_sub = \<lparr>di_address = 22, asm_instr_size = 2, ir_instrs = [i_sub]\<rparr>"

definition d_fall :: DualInstruction where
  "d_fall = \<lparr>di_address = 14, asm_instr_size = 2, ir_instrs = [i_add]\<rparr>"

definition d_jmp :: DualInstruction where
  "d_jmp = \<lparr>di_address = 42, asm_instr_size = 2, ir_instrs = [i_jcc]\<rparr>"

definition d_tail :: DualInstruction where
  "d_tail = \<lparr>di_address = 12, asm_instr_size = 2, ir_instrs = [i_sub]\<rparr>"

definition block_e :: BasicBlock where
  "block_e = \<lparr>bb_address = 10, end_address = 13, instrs = [d_early, d_tail],
               taken_branch = None, not_taken_branch = None, direct_branch = Some 20\<rparr>"

definition block_a :: BasicBlock where
  "block_a = \<lparr>bb_address = 10, end_address = 13, instrs = [d_add, d_jcc],
               taken_branch = Some 20, not_taken_branch = Some 14, direct_branch = None\<rparr>"

definition block_b :: BasicBlock where
  "block_b = \<lparr>bb_address = 20, end_address = 23, instrs = [d_false, d_sub],
               taken_branch = None, not_taken_branch = None, direct_branch = Some 30\<rparr>"

definition block_c :: BasicBlock where
  "block_c = \<lparr>bb_address = 30, end_address = 31, instrs = [],
               taken_branch = None, not_taken_branch = None, direct_branch = None\<rparr>"

definition block_d :: BasicBlock where
  "block_d = \<lparr>bb_address = 14, end_address = 15, instrs = [d_fall],
               taken_branch = None, not_taken_branch = None, direct_branch = Some 30\<rparr>"

definition block_j :: BasicBlock where
  "block_j = \<lparr>bb_address = 42, end_address = 43, instrs = [d_jmp],
               taken_branch = None, not_taken_branch = None, direct_branch = Some 20\<rparr>"

section \<open>Properties\<close>

lemmas demo_defs = demo_ops_def demo_arch_def demo_an_def demo_context_def i_add_def i_false_def
  i_sub_def i_jcc_def d_add_def d_jcc_def d_early_def d_false_def d_sub_def d_fall_def d_jmp_def
  d_tail_def
  block_a_def block_b_def block_c_def block_d_def block_j_def block_e_def

subsection \<open>The loops in closed form\<close>

lemma memory_reads_eq:
  "memory_reads mem address idxs acc = acc @ map (\<lambda>index. Select mem (address + index)) idxs"
  by (induction idxs arbitrary: acc) auto

lemma add_exprs_trace:
  "add_exprs an es = an\<lparr>trace := trace an @ map SolverAdd es\<rparr>"
  by (induction es arbitrary: an) (auto simp: solver_add_def)

lemma add_instruction_trace:
  "trace (add_instruction ops an r) =
     trace an @ Translate r # map SolverAdd (fst (t_translate ops (tstate an) r))"
  by (simp add: add_instruction_def add_exprs_trace split: prod.splits)

lemma add_registers_eq:
  "add_registers ops an rs = an\<lparr>trace := trace an @
     map (\<lambda>(k, r). SolverAdd (Eq (BitVec (reg_size r)
            (t_get_init_name ops (tstate an) (reg_name r))) (reg_value r))) rs\<rparr>"
  by (induction rs arbitrary: an) (auto simp: solver_add_def)

lemma add_flags_eq:
  "add_flags ops an fs = an\<lparr>trace := trace an @
     map (\<lambda>(k, f). SolverAdd (Eq (BitVec 32
            (t_get_init_name ops (tstate an) (flag_name f))) (flag_value f))) fs\<rparr>"
  by (induction fs arbitrary: an) (auto simp: solver_add_def)

lemma add_memory_eq:
  "add_memory mem an ms = an\<lparr>trace := trace an @
     map (\<lambda>(addr, v). SolverAdd (Eq (Select mem addr) v)) ms\<rparr>"
  by (induction ms arbitrary: an) (auto simp: solver_add_def)

text \<open>
  Most-significant first, so the reversed list is least-significant first: the argument
  at position \<open>i\<close> of the list before reversal weighs \<open>2 ^ (sz * i)\<close>.
\<close>

lemma concat_value_rev:
  "concat_value sz (rev vals) = (\<Sum>i<length vals. vals ! i * (2 ^ nat sz) ^ i)"
proof (induction vals)
  case Nil
  show ?case by (simp add: concat_value_def)
next
  case (Cons v vs)
  have "concat_value sz (rev (v # vs)) = concat_value sz (rev vs) * 2 ^ nat sz + v"
    by (simp add: concat_value_def)
  also have "\<dots> = (\<Sum>i<length vs. vs ! i * (2 ^ nat sz) ^ i) * 2 ^ nat sz + v"
    by (simp add: Cons.IH)
  also have "\<dots> = (\<Sum>i<length vs. (v # vs) ! Suc i * (2 ^ nat sz) ^ Suc i) + v"
    by (simp add: sum_distrib_right) (simp add: mult_ac)
  also have "\<dots> = (\<Sum>i<length (v # vs). (v # vs) ! i * (2 ^ nat sz) ^ i)"
    by (simp add: sum.lessThan_Suc_shift del: sum.lessThan_Suc)
  finally show ?case .
qed

subsection \<open>The instruction loop\<close>

text \<open>Instructions other than JCC are translated and added one after the other.\<close>

lemma reil_loop_prefix:
  assumes "\<forall>r\<in>set pre. mnemonic r \<noteq> JCC"
  shows "reil_loop ops c n d an (pre @ rs) =
           reil_loop ops c n d (foldl (add_instruction ops) an pre) rs"
  using assms by (induction pre arbitrary: an) simp_all

text \<open>
  In a native instruction that does not end the block the loop never stops early and never
  raises: it logs every JCC and translates everything else.
\<close>

lemma misplaced_loop:
  assumes "di_address d + asm_instr_size d - 1 \<noteq> end_address c"
  shows "reil_loop ops c n d an rs = Inr (foldl (spec_log_or_translate ops d) an rs)"
  using assms by (induction rs arbitrary: an) (simp_all add: spec_log_or_translate_def)

lemma log_or_translate_trace:
  "\<exists>evs. trace (foldl (spec_log_or_translate ops d) an rs) = trace an @ evs
     \<and> (\<forall>j. mnemonic j = JCC \<longrightarrow> Translate j \<notin> set evs)
     \<and> (\<forall>j\<in>set rs. mnemonic j = JCC \<longrightarrow> LogError (di_address d) j \<in> set evs)
     \<and> (\<forall>j\<in>set rs. mnemonic j \<noteq> JCC \<longrightarrow> Translate j \<in> set evs)"
proof (induction rs arbitrary: an)
  case Nil
  show ?case by simp
next
  case (Cons r rs)
  let ?an1 = "spec_log_or_translate ops d an r"
  obtain e1 where e1: "trace ?an1 = trace an @ e1"
    "\<forall>j. mnemonic j = JCC \<longrightarrow> Translate j \<notin> set e1"
    "mnemonic r = JCC \<longrightarrow> LogError (di_address d) r \<in> set e1"
    "mnemonic r \<noteq> JCC \<longrightarrow> Translate r \<in> set e1"
    by (cases "mnemonic r = JCC") (auto simp: spec_log_or_translate_def add_instruction_trace)
  from Cons.IH[of ?an1] obtain e2 where
    e2: "trace (foldl (spec_log_or_translate ops d) ?an1 rs) = trace ?an1 @ e2"
    "\<forall>j. mnemonic j = JCC \<longrightarrow> Translate j \<notin> set e2"
    "\<forall>j\<in>set rs. mnemonic j = JCC \<longrightarrow> LogError (di_address d) j \<in> set e2"
    "\<forall>j\<in>set rs. mnemonic j \<noteq> JCC \<longrightarrow> Translate j \<in> set e2"
    by blast
  have "trace (foldl (spec_log_or_translate ops d) an (r # rs)) = trace an @ (e1 @ e2)"
    using e1(1) e2(1) by simp
  moreover have "\<forall>j. mnemonic j = JCC \<longrightarrow> Translate j \<notin> set (e1 @ e2)"
    using e1(2) e2(2) by simp
  moreover have "\<forall>j\<in>set (r # rs). mnemonic j = JCC \<longrightarrow> LogError (di_address d) j \<in> set (e1 @ e2)"
    using e1(3) e2(3) by simp
  moreover have "\<forall>j\<in>set (r # rs). mnemonic j \<noteq> JCC \<longrightarrow> Translate j \<in> set (e1 @ e2)"
    using e1(4) e2(4) by simp
  ultimately show ?case by blast
qed

lemma log_or_translate_jcc_free:
  "\<forall>i\<in>set rs. mnemonic i \<noteq> JCC \<Longrightarrow>
     foldl (spec_log_or_translate ops d) an rs = foldl (add_instruction ops) an rs"
  by (induction rs arbitrary: an) (simp_all add: spec_log_or_translate_def)

lemma lenient_instruction:
  assumes "(\<exists>i\<in>set (ir_instrs x). mnemonic i = JCC) \<longrightarrow>
             di_address x + asm_instr_size x - 1 \<noteq> end_address c"
  shows "reil_loop ops c n x an (ir_instrs x) =
           Inr (foldl (spec_log_or_translate ops x) an (ir_instrs x))"
proof (cases "di_address x + asm_instr_size x - 1 \<noteq> end_address c")
  case True
  then show ?thesis by (rule misplaced_loop)
next
  case False
  with assms have free: "\<forall>i\<in>set (ir_instrs x). mnemonic i \<noteq> JCC" by blast
  have "reil_loop ops c n x an (ir_instrs x @ []) =
          reil_loop ops c n x (foldl (add_instruction ops) an (ir_instrs x)) []"
    using free by (rule reil_loop_prefix)
  then show ?thesis using free by (simp add: log_or_translate_jcc_free)
qed

text \<open>
  The instruction loop only appends to the trace, never a check, and translates only
  instructions of its list.
\<close>

lemma reil_loop_trace:
  "reil_loop ops c n d an rs = Inr an' \<Longrightarrow>
     \<exists>evs. trace an' = trace an @ evs \<and> SolverCheck \<notin> set evs
          \<and> (\<forall>r. Translate r \<in> set evs \<longrightarrow> r \<in> set rs)"
proof (induction rs arbitrary: an)
  case Nil
  then show ?case by simp
next
  case (Cons r rs)
  show ?case
  proof (cases "mnemonic r = JCC")
    case False
    then have "reil_loop ops c n d (add_instruction ops an r) rs = Inr an'"
      using Cons.prems by simp
    from Cons.IH[OF this] obtain evs where
      "trace an' = trace (add_instruction ops an r) @ evs" "SolverCheck \<notin> set evs"
      "\<forall>x. Translate x \<in> set evs \<longrightarrow> x \<in> set rs" by blast
    then have "trace an' = trace an @ (Translate r # map SolverAdd (fst (t_translate ops (tstate an) r)) @ evs)
       \<and> SolverCheck \<notin> set (Translate r # map SolverAdd (fst (t_translate ops (tstate an) r)) @ evs)
       \<and> (\<forall>x. Translate x \<in> set (Translate r # map SolverAdd (fst (t_translate ops (tstate an) r)) @ evs)
              \<longrightarrow> x \<in> set (r # rs))"
      by (auto simp: add_instruction_trace)
    then show ?thesis by blast
  next
    case True
    show ?thesis
    proof (cases "di_address d + asm_instr_size d - 1 \<noteq> end_address c")
      case True
      with \<open>mnemonic r = JCC\<close> have
        "reil_loop ops c n d (an\<lparr>trace := trace an @ [LogError (di_address d) r]\<rparr>) rs = Inr an'"
        using Cons.prems by simp
      from Cons.IH[OF this] obtain evs where
        "trace an' = trace an @ LogError (di_address d) r # evs" "SolverCheck \<notin> set evs"
        "\<forall>x. Translate x \<in> set evs \<longrightarrow> x \<in> set rs" by auto
      then have "trace an' = trace an @ (LogError (di_address d) r # evs)
        \<and> SolverCheck \<notin> set (LogError (di_address d) r # evs)
        \<and> (\<forall>x. Translate x \<in> set (LogError (di_address d) r # evs) \<longrightarrow> x \<in> set (r # rs))"
        by simp
      then show ?thesis by blast
    next
      case False
      show ?thesis
      proof (cases "branch_var_goal c n")
        case None
        with False \<open>mnemonic r = JCC\<close> have "reil_loop ops c n d an rs = Inr an'"
          using Cons.prems by (simp split: if_splits)
        from Cons.IH[OF this] show ?thesis by auto
      next
        case (Some g)
        with False \<open>mnemonic r = JCC\<close> show ?thesis
          using Cons.prems
          by (auto simp: add_constraint_def solver_add_def split: if_splits list.splits)
      qed
    qed
  qed
qed

subsection \<open>The loop over the native instructions\<close>

text \<open>While the flag is not set, instructions at other addresses leave no mark.\<close>

lemma dinstr_loop_skip:
  assumes "\<forall>x\<in>set pre. di_address x \<noteq> start"
  shows "dinstr_loop ops start c n False an (pre @ ds) = dinstr_loop ops start c n False an ds"
  using assms by (induction pre) simp_all

text \<open>Once the flag is set, the start address is not looked at again, and the flag stays set.\<close>

lemma dinstr_loop_found:
  "dinstr_loop ops start c n True an ds = dinstr_loop ops start' c n True an ds"
  by (induction ds arbitrary: an) (simp_all add: bind_def split: sum.splits)

lemma dinstr_loop_start:
  assumes "\<forall>x\<in>set pre. di_address x \<noteq> start" "di_address d = start"
  shows "dinstr_loop ops start c n False an (pre @ d # post) =
         dinstr_loop ops start' c n True an (d # post)"
proof -
  have "dinstr_loop ops start c n False an (pre @ d # post) =
        dinstr_loop ops start c n False an (d # post)"
    using assms(1) by (rule dinstr_loop_skip)
  also have "\<dots> = dinstr_loop ops start c n True an (d # post)"
    using assms(2) by simp
  also have "\<dots> = dinstr_loop ops start' c n True an (d # post)"
    by (rule dinstr_loop_found)
  finally show ?thesis .
qed

lemma dinstr_loop_raise:
  assumes "\<forall>x\<in>set skipped. di_address x \<noteq> start" and "di_address d = start"
    and "reil_loop ops c n d an (ir_instrs d) = Inl e"
  shows "dinstr_loop ops start c n False an (skipped @ d # post) = Inl e"
  using assms by (simp add: dinstr_loop_skip bind_def)

text \<open>With the flag set the loop goes through every instruction.\<close>

lemma dinstr_loop_all:
  "dinstr_loop ops start c n True an ds =
     bind (spec_translate_all ops c n an ds) (\<lambda>an'. Inr (True, an'))"
  by (induction ds arbitrary: an) (simp_all add: bind_def split: sum.splits)

lemma translate_all_jcc_free:
  assumes "\<forall>x\<in>set ds. \<forall>i\<in>set (ir_instrs x). mnemonic i \<noteq> JCC"
  shows "spec_translate_all ops c n an ds =
           Inr (foldl (add_instruction ops) an (concat (map ir_instrs ds)))"
  using assms
proof (induction ds arbitrary: an)
  case Nil
  show ?case by simp
next
  case (Cons d ds)
  have "reil_loop ops c n d an (ir_instrs d @ []) =
          reil_loop ops c n d (foldl (add_instruction ops) an (ir_instrs d)) []"
    using Cons.prems by (intro reil_loop_prefix) simp
  then have "reil_loop ops c n d an (ir_instrs d) =
          Inr (foldl (add_instruction ops) an (ir_instrs d))" by simp
  with Cons show ?case by (simp add: bind_def)
qed

lemma lenient_instructions:
  assumes "\<forall>x\<in>set ds. (\<exists>i\<in>set (ir_instrs x). mnemonic i = JCC) \<longrightarrow>
             di_address x + asm_instr_size x - 1 \<noteq> end_address c"
  shows "dinstr_loop ops start c n True an ds =
           Inr (True, foldl (\<lambda>a x. foldl (spec_log_or_translate ops x) a (ir_instrs x)) an ds)"
  using assms
proof (induction ds arbitrary: an)
  case Nil
  show ?case by simp
next
  case (Cons x ds)
  then show ?case by (simp add: lenient_instruction bind_def)
qed

lemma dinstr_loop_trace:
  "dinstr_loop ops start c n f an ds = Inr (f', an') \<Longrightarrow>
     \<exists>evs. trace an' = trace an @ evs \<and> SolverCheck \<notin> set evs
          \<and> (\<forall>r. Translate r \<in> set evs \<longrightarrow> (\<exists>d\<in>set ds. r \<in> set (ir_instrs d)))"
proof (induction ds arbitrary: f an)
  case Nil
  then show ?case by simp
next
  case (Cons d ds)
  show ?case
  proof (cases "\<not> f \<and> di_address d \<noteq> start")
    case True
    then have "dinstr_loop ops start c n f an ds = Inr (f', an')"
      using Cons.prems by simp
    from Cons.IH[OF this] show ?thesis by auto
  next
    case False
    then obtain an1 where r: "reil_loop ops c n d an (ir_instrs d) = Inr an1"
      and l: "dinstr_loop ops start c n True an1 ds = Inr (f', an')"
      using Cons.prems by (auto simp: bind_def split: sum.splits)
    from reil_loop_trace[OF r] obtain e1 where
      e1: "trace an1 = trace an @ e1" "SolverCheck \<notin> set e1"
          "\<forall>x. Translate x \<in> set e1 \<longrightarrow> x \<in> set (ir_instrs d)" by blast
    from Cons.IH[OF l] obtain e2 where
      e2: "trace an' = trace an1 @ e2" "SolverCheck \<notin> set e2"
          "\<forall>x. Translate x \<in> set e2 \<longrightarrow> (\<exists>d\<in>set ds. x \<in> set (ir_instrs d))" by blast
    from e1 e2 have "trace an' = trace an @ (e1 @ e2) \<and> SolverCheck \<notin> set (e1 @ e2)
       \<and> (\<forall>x. Translate x \<in> set (e1 @ e2) \<longrightarrow> (\<exists>d\<in>set (d # ds). x \<in> set (ir_instrs d)))"
      by auto
    then show ?thesis by blast
  qed
qed

subsection \<open>The loop over the blocks\<close>

lemma block_loop_all:
  "block_loop ops start True sat an pairs =
     spec_fold ops an sat (map (\<lambda>(c, n). (instrs c, c, n)) pairs)"
proof (induction pairs arbitrary: sat an)
  case Nil
  show ?case by simp
next
  case (Cons p pairs)
  obtain c n where p: "p = (c, n)" by (cases p)
  show ?case
    by (cases "spec_translate_all ops c n an (instrs c)")
       (simp_all add: p dinstr_loop_all bind_def Let_def Cons.IH)
qed

text \<open>Where the first check after a stretch without checks sits in a trace.\<close>

lemma split_seg:
  assumes "SolverCheck \<notin> set seg"
    and "seg @ SolverCheck # later = u @ SolverCheck # q"
  shows "u = seg \<and> q = later
       \<or> (\<exists>p'. u = seg @ SolverCheck # p' \<and> later = p' @ SolverCheck # q)"
  using assms
proof (induction seg arbitrary: u)
  case Nil
  then show ?case by (cases u) auto
next
  case (Cons s ss)
  then show ?case by (cases u) auto
qed

lemma split_prefix:
  assumes "t @ a = p @ b" and "length t \<le> length p"
  shows "\<exists>u. p = t @ u \<and> a = u @ b"
  using assms by (auto simp: append_eq_append_conv2)

lemma split_first_check:
  assumes "SolverCheck \<notin> set seg"
    and "t @ seg @ SolverCheck # later = p @ SolverCheck # q"
    and "length t \<le> length p"
  shows "p = t @ seg \<and> q = later
       \<or> (\<exists>p'. p = t @ seg @ SolverCheck # p' \<and> later = p' @ SolverCheck # q)"
proof -
  from split_prefix[OF assms(2,3)] obtain u where
    u: "p = t @ u" "seg @ SolverCheck # later = u @ SolverCheck # q" by blast
  from split_seg[OF assms(1) u(2)] u(1) show ?thesis by auto
qed

text \<open>
  The trace of a run of the block loop that returns: stretches without a check, each
  followed by one check; as many stretches as blocks were gone through.
\<close>

lemma block_loop_checks:
  assumes "block_loop ops start f sat0 an pairs = Inr (sat, an')" and "pairs \<noteq> []"
  shows "\<exists>segs. segs \<noteq> [] \<and> length segs \<le> length pairs
           \<and> (\<forall>seg\<in>set segs. SolverCheck \<notin> set seg)
           \<and> (\<forall>k<length segs. \<forall>r. Translate r \<in> set (segs ! k) \<longrightarrow>
                  (\<exists>d\<in>set (instrs (fst (pairs ! k))). r \<in> set (ir_instrs d)))
           \<and> trace an' = trace an @ concat (map (\<lambda>seg. seg @ [SolverCheck]) segs)
           \<and> (sat \<longrightarrow> length segs = length pairs)
           \<and> sat = (s_check ops (butlast (trace an')) = ''sat'')
           \<and> (\<forall>p q. trace an' = p @ SolverCheck # q \<longrightarrow> length (trace an) \<le> length p \<longrightarrow>
                  s_check ops p \<noteq> ''sat'' \<longrightarrow> q = [])"
  using assms
proof (induction pairs arbitrary: f sat0 an)
  case Nil
  then show ?case by simp
next
  case (Cons pr rest)
  obtain c n where pr: "pr = (c, n)" by (cases pr)
  from Cons.prems(1) obtain f1 an1 where
    d: "dinstr_loop ops start c n f an (instrs c) = Inr (f1, an1)"
    by (auto simp: pr bind_def split: sum.splits)
  from dinstr_loop_trace[OF d] obtain seg where
    seg: "trace an1 = trace an @ seg" "SolverCheck \<notin> set seg"
      "\<forall>r. Translate r \<in> set seg \<longrightarrow> (\<exists>d\<in>set (instrs c). r \<in> set (ir_instrs d))" by blast
  let ?an2 = "an1\<lparr>trace := trace an1 @ [SolverCheck]\<rparr>"
  have step: "block_loop ops start f sat0 an (pr # rest) =
      (if s_check ops (trace an1) \<noteq> ''sat'' then Inr (False, ?an2)
       else block_loop ops start f1 True ?an2 rest)"
    using d by (simp add: pr bind_def Let_def)
  show ?case
  proof (cases "s_check ops (trace an1) = ''sat'' \<and> rest \<noteq> []")
    case False
    then have res: "sat = (s_check ops (trace an1) = ''sat'')" "an' = ?an2"
      and len: "sat \<longrightarrow> rest = []"
      using Cons.prems(1) step by (auto split: if_splits)
    have tr: "trace an' = trace an @ seg @ [SolverCheck]"
      using res(2) seg(1) by simp
    have final: "\<forall>p q. trace an' = p @ SolverCheck # q \<longrightarrow> length (trace an) \<le> length p \<longrightarrow>
                  s_check ops p \<noteq> ''sat'' \<longrightarrow> q = []"
    proof (intro allI impI)
      fix p q
      assume "trace an' = p @ SolverCheck # q" "length (trace an) \<le> length p"
      then have "trace an @ seg @ SolverCheck # [] = p @ SolverCheck # q" using tr by simp
      from split_first_check[OF seg(2) this \<open>length (trace an) \<le> length p\<close>]
      show "q = []" by auto
    qed
    have blocks: "\<forall>k<length [seg]. \<forall>r. Translate r \<in> set ([seg] ! k) \<longrightarrow>
                  (\<exists>d\<in>set (instrs (fst ((pr # rest) ! k))). r \<in> set (ir_instrs d))"
      using seg(3) by (simp add: pr)
    have "[seg] \<noteq> [] \<and> length [seg] \<le> length (pr # rest)
           \<and> (\<forall>s\<in>set [seg]. SolverCheck \<notin> set s)
           \<and> trace an' = trace an @ concat (map (\<lambda>seg. seg @ [SolverCheck]) [seg])
           \<and> (sat \<longrightarrow> length [seg] = length (pr # rest))
           \<and> sat = (s_check ops (butlast (trace an')) = ''sat'')"
      using seg(1,2) tr res len by (simp add: butlast_append)
    with final blocks show ?thesis by blast
  next
    case True
    then have run: "block_loop ops start f1 True ?an2 rest = Inr (sat, an')"
      using Cons.prems(1) step by simp
    from Cons.IH[OF run] True obtain segs where
      s: "segs \<noteq> []" "length segs \<le> length rest"
         "\<forall>seg\<in>set segs. SolverCheck \<notin> set seg"
         "trace an' = trace ?an2 @ concat (map (\<lambda>seg. seg @ [SolverCheck]) segs)"
         "sat \<longrightarrow> length segs = length rest"
         "sat = (s_check ops (butlast (trace an')) = ''sat'')"
         "\<forall>p q. trace an' = p @ SolverCheck # q \<longrightarrow> length (trace ?an2) \<le> length p \<longrightarrow>
                  s_check ops p \<noteq> ''sat'' \<longrightarrow> q = []"
      and b: "\<forall>k<length segs. \<forall>r. Translate r \<in> set (segs ! k) \<longrightarrow>
                  (\<exists>d\<in>set (instrs (fst (rest ! k))). r \<in> set (ir_instrs d))"
      by blast
    let ?later = "concat (map (\<lambda>seg. seg @ [SolverCheck]) segs)"
    have tr: "trace an' = trace an @ seg @ SolverCheck # ?later"
      using s(4) seg(1) by simp
    have final: "\<forall>p q. trace an' = p @ SolverCheck # q \<longrightarrow> length (trace an) \<le> length p \<longrightarrow>
                  s_check ops p \<noteq> ''sat'' \<longrightarrow> q = []"
    proof (intro allI impI)
      fix p q
      assume a: "trace an' = p @ SolverCheck # q" "length (trace an) \<le> length p"
        "s_check ops p \<noteq> ''sat''"
      from a(1) tr have "trace an @ seg @ SolverCheck # ?later = p @ SolverCheck # q" by simp
      from split_first_check[OF seg(2) this a(2)]
      consider "p = trace an @ seg" |
        p' where "p = trace an @ seg @ SolverCheck # p'" "?later = p' @ SolverCheck # q"
        by blast
      then show "q = []"
      proof cases
        case 1
        with True seg(1) a(3) show ?thesis by simp
      next
        case 2
        then have "length (trace ?an2) \<le> length p" using seg(1) by simp
        with s(7) a(1,3) show ?thesis by blast
      qed
    qed
    have blocks: "\<forall>k<length (seg # segs). \<forall>r. Translate r \<in> set ((seg # segs) ! k) \<longrightarrow>
                  (\<exists>d\<in>set (instrs (fst ((pr # rest) ! k))). r \<in> set (ir_instrs d))"
    proof (intro allI impI)
      fix k r
      assume k: "k < length (seg # segs)" and t: "Translate r \<in> set ((seg # segs) ! k)"
      show "\<exists>d\<in>set (instrs (fst ((pr # rest) ! k))). r \<in> set (ir_instrs d)"
      proof (cases k)
        case 0
        with t seg(3) show ?thesis by (simp add: pr)
      next
        case (Suc j)
        with k t b show ?thesis by simp
      qed
    qed
    have "seg # segs \<noteq> [] \<and> length (seg # segs) \<le> length (pr # rest)
           \<and> (\<forall>s\<in>set (seg # segs). SolverCheck \<notin> set s)
           \<and> trace an' = trace an @ concat (map (\<lambda>seg. seg @ [SolverCheck]) (seg # segs))
           \<and> (sat \<longrightarrow> length (seg # segs) = length (pr # rest))
           \<and> sat = (s_check ops (butlast (trace an')) = ''sat'')"
      using s(1,2,3,5,6) seg(2) tr by simp
    with final blocks show ?thesis by blast
  qed
qed

lemma pairs_nth:
  "k < length path - 1 \<Longrightarrow> fst (zip (butlast path) (tl path) ! k) = path ! k"
  by (simp add: nth_butlast)

section \<open>The claims\<close>

subsection \<open>Unmatched branch edge\<close>

text \<open>
  A path on which the claim that an unmatched edge is skipped in silence fails:
  \<open>block_j\<close> ends in a JCC, its native instruction ends the block, none of the three
  branch fields of \<open>block_j\<close> is the address of \<open>block_c\<close>, and the call raises.
\<close>

theorem unmatched_edge_counterexample:
  "mnemonic i_jcc = JCC
   \<and> di_address d_jmp + asm_instr_size d_jmp - 1 = end_address block_j
   \<and> taken_branch block_j \<noteq> Some (bb_address block_c)
   \<and> not_taken_branch block_j \<noteq> Some (bb_address block_c)
   \<and> direct_branch block_j \<noteq> Some (bb_address block_c)
   \<and> check_path_satisfiability demo_ops demo_an [block_j, block_c] 42 = Inl AssertionError"
  by (simp add: check_path_satisfiability_def demo_defs bind_def)

text \<open>
  C1, as amended. When the instruction loop comes to a JCC whose native instruction ends
  the current block (after instructions of the same native instruction that are not JCCs)
  and none of \<open>taken_branch\<close>, \<open>not_taken_branch\<close> and \<open>direct_branch\<close> of the current
  block is the address of the next block, the \<^verbatim>\<open>assert\<close> fails: the loop raises
  \<open>AssertionError\<close>, and so does \<open>check_path_satisfiability\<close> when that native
  instruction is the one at the start address in the first block of the path. The
  instruction is not skipped and the check does not go on.
\<close>

theorem unmatched_edge_raises:
  assumes "\<forall>i\<in>set pre. mnemonic i \<noteq> JCC"
    and "mnemonic r = JCC"
    and "di_address d + asm_instr_size d - 1 = end_address c"
    and "taken_branch c \<noteq> Some (bb_address n)"
    and "not_taken_branch c \<noteq> Some (bb_address n)"
    and "direct_branch c \<noteq> Some (bb_address n)"
  shows "reil_loop ops c n d an (pre @ r # rest) = Inl AssertionError
       \<and> (instrs c = skipped @ d # post \<longrightarrow>
            (\<forall>x\<in>set skipped. di_address x \<noteq> start_address) \<longrightarrow>
            di_address d = start_address \<longrightarrow> ir_instrs d = pre @ r # rest \<longrightarrow>
            check_path_satisfiability ops an (c # n # blocks) start_address
              = Inl AssertionError)"
proof -
  have raise: "reil_loop ops c n d an (pre @ r # rest) = Inl AssertionError"
    using assms by (simp add: reil_loop_prefix)
  have "check_path_satisfiability ops an (c # n # blocks) start_address = Inl AssertionError"
    if "instrs c = skipped @ d # post" "\<forall>x\<in>set skipped. di_address x \<noteq> start_address"
       "di_address d = start_address" "ir_instrs d = pre @ r # rest"
  proof -
    have "dinstr_loop ops start_address c n False an (instrs c) = Inl AssertionError"
      using dinstr_loop_raise[OF that(2,3), of ops c n an AssertionError post] raise that(1,4)
      by simp
    then show ?thesis
      by (simp add: check_path_satisfiability_def bind_def del: dinstr_loop.simps)
  qed
  with raise show ?thesis by blast
qed

theorem unmatched_edge_raises_witness:
  "reil_loop demo_ops block_a block_c d_jcc demo_an [i_sub, i_jcc] = Inl AssertionError
   \<and> check_path_satisfiability demo_ops demo_an [block_a, block_c, block_b] 12
       = Inl AssertionError"
  using unmatched_edge_raises[of "[i_sub]" i_jcc d_jcc block_a block_c demo_ops demo_an "[]"
      "[d_add]" "[]" 12 "[block_b]"]
  by (simp add: demo_defs)

subsection \<open>The goal of a branch condition\<close>

text \<open>
  A path of two blocks whose first block ends, in the native instruction at the start
  address, with a JCC: the instructions before the JCC are translated, the goal of the
  branch condition is added (none for a direct branch), and the solver is asked once.
\<close>

lemma two_block_path:
  assumes "instrs c = skipped @ [d]"
    and "\<forall>x\<in>set skipped. di_address x \<noteq> start_address"
    and "di_address d = start_address"
    and "ir_instrs d = pre @ [r]"
    and "\<forall>i\<in>set pre. mnemonic i \<noteq> JCC"
    and "mnemonic r = JCC"
    and "di_address d + asm_instr_size d - 1 = end_address c"
    and "operands r = operand # others"
    and "taken_branch c = Some (bb_address n) \<or> not_taken_branch c = Some (bb_address n)
         \<or> direct_branch c = Some (bb_address n)"
  shows "check_path_satisfiability ops an [c, n] start_address =
     (let an1 = foldl (add_instruction ops) an pre;
          branch_var = t_translate_src_oprnd ops (tstate an1) operand;
          an2 = (if taken_branch c = Some (bb_address n)
                 then an1\<lparr>trace := trace an1 @ [SolverAdd (Eq branch_var 1)]\<rparr>
                 else if not_taken_branch c = Some (bb_address n)
                 then an1\<lparr>trace := trace an1 @ [SolverAdd (Eq branch_var 0)]\<rparr>
                 else an1)
      in Inr (s_check ops (trace an2) = ''sat'', an2\<lparr>trace := trace an2 @ [SolverCheck]\<rparr>))"
proof -
  let ?an1 = "foldl (add_instruction ops) an pre"
  let ?bv = "t_translate_src_oprnd ops (tstate ?an1) operand"
  let ?an2 = "if taken_branch c = Some (bb_address n)
                 then ?an1\<lparr>trace := trace ?an1 @ [SolverAdd (Eq ?bv 1)]\<rparr>
                 else if not_taken_branch c = Some (bb_address n)
                 then ?an1\<lparr>trace := trace ?an1 @ [SolverAdd (Eq ?bv 0)]\<rparr>
                 else ?an1"
  have loop: "reil_loop ops c n d an (ir_instrs d) = Inr ?an2"
    using assms(5-9)
    by (auto simp: assms(4) reil_loop_prefix branch_var_goal_def add_constraint_def
        solver_add_def get_operand_var_def)
  have "dinstr_loop ops start_address c n False an (instrs c) =
        dinstr_loop ops start_address c n False an [d]"
    unfolding assms(1) using assms(2) by (rule dinstr_loop_skip)
  also have "\<dots> = Inr (True, ?an2)"
    using assms(3) loop by (simp add: bind_def)
  finally have "dinstr_loop ops start_address c n False an (instrs c) = Inr (True, ?an2)" .
  then show ?thesis
    by (simp add: check_path_satisfiability_def bind_def Let_def del: dinstr_loop.simps)
qed

text \<open>
  C2. When the instruction loop comes to a JCC whose native instruction ends the current
  block: if the address of the next block is \<open>taken_branch\<close> of the current one, the
  loop adds the assertion that the translator's expression for the first operand of the
  JCC equals 1, and stops; otherwise, if it is \<open>not_taken_branch\<close>, the assertion that
  the expression equals 0; otherwise, if it is \<open>direct_branch\<close>, nothing is added and the
  loop goes on with the instructions after the JCC. The three are tried in this order.
  Here \<open>an1\<close> is the state after the instructions before the JCC in the same native
  instruction, none of them a JCC. The last part is the whole call on a path of two
  blocks whose first block ends with that native instruction, at the start address.
\<close>

theorem branch_condition_goal:
  assumes "\<forall>i\<in>set pre. mnemonic i \<noteq> JCC"
    and "mnemonic r = JCC"
    and "di_address d + asm_instr_size d - 1 = end_address c"
    and "operands r = operand # others"
    and "an1 = foldl (add_instruction ops) an pre"
    and "branch_var = t_translate_src_oprnd ops (tstate an1) operand"
  shows "(taken_branch c = Some (bb_address n) \<longrightarrow>
            reil_loop ops c n d an (pre @ r # rest) =
              Inr (an1\<lparr>trace := trace an1 @ [SolverAdd (Eq branch_var 1)]\<rparr>))
       \<and> (taken_branch c \<noteq> Some (bb_address n) \<longrightarrow>
            not_taken_branch c = Some (bb_address n) \<longrightarrow>
            reil_loop ops c n d an (pre @ r # rest) =
              Inr (an1\<lparr>trace := trace an1 @ [SolverAdd (Eq branch_var 0)]\<rparr>))
       \<and> (taken_branch c \<noteq> Some (bb_address n) \<longrightarrow>
            not_taken_branch c \<noteq> Some (bb_address n) \<longrightarrow>
            direct_branch c = Some (bb_address n) \<longrightarrow>
            reil_loop ops c n d an (pre @ r # rest) = reil_loop ops c n d an1 rest)
       \<and> (instrs c = skipped @ [d] \<longrightarrow>
            (\<forall>x\<in>set skipped. di_address x \<noteq> start_address) \<longrightarrow>
            di_address d = start_address \<longrightarrow> ir_instrs d = pre @ [r] \<longrightarrow>
            (taken_branch c = Some (bb_address n) \<or> not_taken_branch c = Some (bb_address n)
               \<or> direct_branch c = Some (bb_address n)) \<longrightarrow>
            check_path_satisfiability ops an [c, n] start_address =
              (let an2 = (if taken_branch c = Some (bb_address n)
                          then an1\<lparr>trace := trace an1 @ [SolverAdd (Eq branch_var 1)]\<rparr>
                          else if not_taken_branch c = Some (bb_address n)
                          then an1\<lparr>trace := trace an1 @ [SolverAdd (Eq branch_var 0)]\<rparr>
                          else an1)
               in Inr (s_check ops (trace an2) = ''sat'',
                       an2\<lparr>trace := trace an2 @ [SolverCheck]\<rparr>)))"
proof -
  have loop: "(taken_branch c = Some (bb_address n) \<longrightarrow>
            reil_loop ops c n d an (pre @ r # rest) =
              Inr (an1\<lparr>trace := trace an1 @ [SolverAdd (Eq branch_var 1)]\<rparr>))
       \<and> (taken_branch c \<noteq> Some (bb_address n) \<longrightarrow>
            not_taken_branch c = Some (bb_address n) \<longrightarrow>
            reil_loop ops c n d an (pre @ r # rest) =
              Inr (an1\<lparr>trace := trace an1 @ [SolverAdd (Eq branch_var 0)]\<rparr>))
       \<and> (taken_branch c \<noteq> Some (bb_address n) \<longrightarrow>
            not_taken_branch c \<noteq> Some (bb_address n) \<longrightarrow>
            direct_branch c = Some (bb_address n) \<longrightarrow>
            reil_loop ops c n d an (pre @ r # rest) = reil_loop ops c n d an1 rest)"
    using assms
    by (simp add: reil_loop_prefix branch_var_goal_def add_constraint_def solver_add_def
        get_operand_var_def)
  have path: "check_path_satisfiability ops an [c, n] start_address =
              (let an2 = (if taken_branch c = Some (bb_address n)
                          then an1\<lparr>trace := trace an1 @ [SolverAdd (Eq branch_var 1)]\<rparr>
                          else if not_taken_branch c = Some (bb_address n)
                          then an1\<lparr>trace := trace an1 @ [SolverAdd (Eq branch_var 0)]\<rparr>
                          else an1)
               in Inr (s_check ops (trace an2) = ''sat'',
                       an2\<lparr>trace := trace an2 @ [SolverCheck]\<rparr>))"
    if "instrs c = skipped @ [d]" "\<forall>x\<in>set skipped. di_address x \<noteq> start_address"
      "di_address d = start_address" "ir_instrs d = pre @ [r]"
      "taken_branch c = Some (bb_address n) \<or> not_taken_branch c = Some (bb_address n)
         \<or> direct_branch c = Some (bb_address n)"
    using two_block_path[OF that(1-4) assms(1-4) that(5), of ops an]
    by (simp add: assms(5,6) Let_def)
  from loop path show ?thesis by blast
qed

theorem branch_condition_goal_witness:
  "reil_loop demo_ops block_a block_b d_jcc demo_an [i_sub, i_jcc] =
     Inr \<lparr>stored_context = None, tstate = 1,
          trace = [Translate i_sub, SolverAdd (Ext ''sub''),
                   SolverAdd (Eq (BitVec 1 ''t0_1'') 1)]\<rparr>
   \<and> check_path_satisfiability demo_ops demo_an [block_a, block_b] 12 =
     Inr (True, \<lparr>stored_context = None, tstate = 1,
          trace = [Translate i_sub, SolverAdd (Ext ''sub''),
                   SolverAdd (Eq (BitVec 1 ''t0_1'') 1), SolverCheck]\<rparr>)
   \<and> reil_loop demo_ops block_a block_d d_jcc demo_an [i_sub, i_jcc] =
     Inr \<lparr>stored_context = None, tstate = 1,
          trace = [Translate i_sub, SolverAdd (Ext ''sub''),
                   SolverAdd (Eq (BitVec 1 ''t0_1'') 0)]\<rparr>
   \<and> check_path_satisfiability demo_ops demo_an [block_a, block_d] 12 =
     Inr (True, \<lparr>stored_context = None, tstate = 1,
          trace = [Translate i_sub, SolverAdd (Ext ''sub''),
                   SolverAdd (Eq (BitVec 1 ''t0_1'') 0), SolverCheck]\<rparr>)
   \<and> reil_loop demo_ops block_j block_b d_jmp demo_an [i_jcc, i_add] =
     Inr \<lparr>stored_context = None, tstate = 1,
          trace = [Translate i_add, SolverAdd (Ext ''add'')]\<rparr>
   \<and> check_path_satisfiability demo_ops demo_an [block_j, block_b] 42 =
     Inr (True, \<lparr>stored_context = None, tstate = 0, trace = [SolverCheck]\<rparr>)"
  using branch_condition_goal[of "[i_sub]" i_jcc d_jcc block_a "ReilRegisterOperand ''t0'' 1"
      "[OtherOperand ''empty'', ReilImmediateOperand 20 32]"
      "add_instruction demo_ops demo_an i_sub" demo_ops demo_an "BitVec 1 ''t0_1''" block_b "[]"
      "[d_add]" 12]
    branch_condition_goal[of "[i_sub]" i_jcc d_jcc block_a "ReilRegisterOperand ''t0'' 1"
      "[OtherOperand ''empty'', ReilImmediateOperand 20 32]"
      "add_instruction demo_ops demo_an i_sub" demo_ops demo_an "BitVec 1 ''t0_1''" block_d "[]"
      "[d_add]" 12]
    branch_condition_goal[of "[]" i_jcc d_jmp block_j "ReilRegisterOperand ''t0'' 1"
      "[OtherOperand ''empty'', ReilImmediateOperand 20 32]"
      demo_an demo_ops demo_an "BitVec 1 ''t0_1''" block_b "[i_add]" "[]" 42]
  by (simp add: demo_defs add_instruction_def solver_add_def)

subsection \<open>One check after each block\<close>

text \<open>
  C3. For a path of at least two blocks on which \<open>check_path_satisfiability\<close> returns:
  what the call appends to the trace is a sequence of stretches, one for each block gone
  through, each a run of events without a check followed by exactly one check, the
  stretch number \<open>k\<close> translating only instructions of block number \<open>k\<close> of the path; a
  check that does not answer \<^verbatim>\<open>sat\<close> is the last event of the trace (nothing of a
  later block is translated, added or checked after it); the value returned is whether
  the last check answered \<^verbatim>\<open>sat\<close>; and when it did, every pair of consecutive
  blocks was gone through.
\<close>

theorem one_check_per_block:
  assumes "check_path_satisfiability ops an path start_address = Inr (sat, an')"
    and "2 \<le> length path"
  shows "\<exists>segs. segs \<noteq> [] \<and> length segs \<le> length path - 1
           \<and> (\<forall>seg\<in>set segs. SolverCheck \<notin> set seg)
           \<and> (\<forall>k<length segs. \<forall>r. Translate r \<in> set (segs ! k) \<longrightarrow>
                  (\<exists>d\<in>set (instrs (path ! k)). r \<in> set (ir_instrs d)))
           \<and> trace an' = trace an @ concat (map (\<lambda>seg. seg @ [SolverCheck]) segs)
           \<and> (sat \<longrightarrow> length segs = length path - 1)
           \<and> sat = (s_check ops (butlast (trace an')) = ''sat'')
           \<and> (\<forall>p q. trace an' = p @ SolverCheck # q \<longrightarrow> length (trace an) \<le> length p \<longrightarrow>
                  s_check ops p \<noteq> ''sat'' \<longrightarrow> q = [])"
proof -
  let ?pairs = "zip (butlast path) (tl path)"
  have ne: "?pairs \<noteq> []" using assms(2) by (cases path; cases "tl path") auto
  have len: "length ?pairs = length path - 1" by simp
  from block_loop_checks[OF assms(1)[unfolded check_path_satisfiability_def] ne]
  obtain segs where s: "segs \<noteq> []" "length segs \<le> length ?pairs"
      "\<forall>seg\<in>set segs. SolverCheck \<notin> set seg"
      "\<forall>k<length segs. \<forall>r. Translate r \<in> set (segs ! k) \<longrightarrow>
                  (\<exists>d\<in>set (instrs (fst (?pairs ! k))). r \<in> set (ir_instrs d))"
      "trace an' = trace an @ concat (map (\<lambda>seg. seg @ [SolverCheck]) segs)"
      "sat \<longrightarrow> length segs = length ?pairs"
      "sat = (s_check ops (butlast (trace an')) = ''sat'')"
      "\<forall>p q. trace an' = p @ SolverCheck # q \<longrightarrow> length (trace an) \<le> length p \<longrightarrow>
                  s_check ops p \<noteq> ''sat'' \<longrightarrow> q = []"
    by blast
  have "\<forall>k<length segs. \<forall>r. Translate r \<in> set (segs ! k) \<longrightarrow>
                  (\<exists>d\<in>set (instrs (path ! k)). r \<in> set (ir_instrs d))"
  proof (intro allI impI)
    fix k r
    assume k: "k < length segs" and t: "Translate r \<in> set (segs ! k)"
    from k s(2) have "k < length path - 1" by simp
    then have "fst (?pairs ! k) = path ! k" by (rule pairs_nth)
    with s(4) k t show "\<exists>d\<in>set (instrs (path ! k)). r \<in> set (ir_instrs d)" by auto
  qed
  with s(1,2,3,5,6,7,8) show ?thesis unfolding len by blast
qed

theorem one_check_per_block_witness:
  "check_path_satisfiability demo_ops demo_an [block_a, block_b, block_c, block_c] 10 =
     Inr (False, \<lparr>stored_context = None, tstate = 4,
                  trace = [Translate i_add, SolverAdd (Ext ''add''), Translate i_sub,
                           SolverAdd (Ext ''sub''), SolverAdd (Eq (BitVec 1 ''t0_1'') 1),
                           SolverCheck,
                           Translate i_false, SolverAdd (Ext ''false''), Translate i_sub,
                           SolverAdd (Ext ''sub''), SolverCheck]\<rparr>)
   \<and> (\<exists>segs. segs \<noteq> [] \<and> length segs \<le> 3
           \<and> (\<forall>seg\<in>set segs. SolverCheck \<notin> set seg)
           \<and> [Translate i_add, SolverAdd (Ext ''add''), Translate i_sub,
                           SolverAdd (Ext ''sub''), SolverAdd (Eq (BitVec 1 ''t0_1'') 1),
                           SolverCheck,
                           Translate i_false, SolverAdd (Ext ''false''), Translate i_sub,
                           SolverAdd (Ext ''sub''), SolverCheck]
               = concat (map (\<lambda>seg. seg @ [SolverCheck]) segs))"
proof -
  let ?an' = "\<lparr>stored_context = None, tstate = 4,
                  trace = [Translate i_add, SolverAdd (Ext ''add''), Translate i_sub,
                           SolverAdd (Ext ''sub''), SolverAdd (Eq (BitVec 1 ''t0_1'') 1),
                           SolverCheck,
                           Translate i_false, SolverAdd (Ext ''false''), Translate i_sub,
                           SolverAdd (Ext ''sub''), SolverCheck]\<rparr> :: (nat, string) CodeAnalyzer"
  have run: "check_path_satisfiability demo_ops demo_an [block_a, block_b, block_c, block_c] 10 =
     Inr (False, ?an')"
    by (simp add: check_path_satisfiability_def demo_defs bind_def add_instruction_def
        solver_add_def branch_var_goal_def add_constraint_def get_operand_var_def)
  have len: "2 \<le> length [block_a, block_b, block_c, block_c]" by simp
  from one_check_per_block[OF run len] obtain segs where
    "segs \<noteq> []" "length segs \<le> length [block_a, block_b, block_c, block_c] - 1"
    "\<forall>seg\<in>set segs. SolverCheck \<notin> set seg"
    "trace ?an' = trace demo_an @ concat (map (\<lambda>seg. seg @ [SolverCheck]) segs)"
    by blast
  then have "\<exists>segs. segs \<noteq> [] \<and> length segs \<le> 3
           \<and> (\<forall>seg\<in>set segs. SolverCheck \<notin> set seg)
           \<and> trace ?an' = concat (map (\<lambda>seg. seg @ [SolverCheck]) segs)"
    by (auto simp: demo_an_def)
  with run show ?thesis by simp
qed

subsection \<open>Looking for the start address\<close>

text \<open>
  C4. For a path of at least two blocks whose first block has an instruction at the start
  address (what the specification requires of a call): the instructions of the first
  block before the first one at the start address are skipped entirely, that instruction
  and every later instruction of the first block are gone through, and so is every
  instruction of every later current block, whatever its address. The call is the
  specification's fold over the first block from the start on and over every later block
  but the last (which is never a current block) in full: the skipped instructions do not
  occur in it, and nothing in it looks at an address. Going through instructions without
  a JCC is translating each of them, in order, and adding its assertions.
\<close>

theorem start_skipping:
  assumes "instrs c = pre @ d # post"
    and "\<forall>x\<in>set pre. di_address x \<noteq> start_address"
    and "di_address d = start_address"
  shows "check_path_satisfiability ops an (c # n # rest) start_address =
           spec_fold ops an False
             ((d # post, c, n) #
              map (\<lambda>(c', n'). (instrs c', c', n')) (zip (butlast (n # rest)) (tl (n # rest))))
       \<and> ((\<forall>x\<in>set ds. \<forall>i\<in>set (ir_instrs x). mnemonic i \<noteq> JCC) \<longrightarrow>
            spec_translate_all ops c' n' an0 ds =
              Inr (foldl (add_instruction ops) an0 (concat (map ir_instrs ds))))"
proof -
  let ?ps = "zip (butlast (n # rest)) (tl (n # rest))"
  have first: "dinstr_loop ops start_address c n False an (instrs c) =
               bind (spec_translate_all ops c n an (d # post)) (\<lambda>an'. Inr (True, an'))"
    using dinstr_loop_start[OF assms(2,3), of ops c n an post start_address]
    by (simp only: assms(1) dinstr_loop_all)
  have "check_path_satisfiability ops an (c # n # rest) start_address =
           spec_fold ops an False ((d # post, c, n) # map (\<lambda>(c', n'). (instrs c', c', n')) ?ps)"
    by (cases "spec_translate_all ops c n an (d # post)")
       (simp_all add: check_path_satisfiability_def first bind_def Let_def block_loop_all
          del: dinstr_loop.simps spec_translate_all.simps)
  then show ?thesis using translate_all_jcc_free[of ds ops c' n' an0] by blast
qed

theorem start_skipping_witness:
  "instrs block_a = [d_add] @ d_jcc # []
   \<and> check_path_satisfiability demo_ops demo_an [block_a, block_b, block_c] 12 =
       spec_fold demo_ops demo_an False
         [([d_jcc], block_a, block_b), ([d_false, d_sub], block_b, block_c)]
   \<and> check_path_satisfiability demo_ops demo_an [block_a, block_b, block_c] 12 =
       Inr (False, \<lparr>stored_context = None, tstate = 3,
                    trace = [Translate i_sub, SolverAdd (Ext ''sub''),
                             SolverAdd (Eq (BitVec 1 ''t0_1'') 1), SolverCheck,
                             Translate i_false, SolverAdd (Ext ''false''), Translate i_sub,
                             SolverAdd (Ext ''sub''), SolverCheck]\<rparr>)
   \<and> spec_translate_all demo_ops block_b block_c demo_an [d_false, d_sub] =
       Inr \<lparr>stored_context = None, tstate = 2,
            trace = [Translate i_false, SolverAdd (Ext ''false''), Translate i_sub,
                     SolverAdd (Ext ''sub'')]\<rparr>"
proof -
  have dec: "instrs block_a = [d_add] @ d_jcc # []" by (simp add: block_a_def)
  have pre: "\<forall>x\<in>set [d_add]. di_address x \<noteq> 12" by (simp add: d_add_def)
  have at: "di_address d_jcc = 12" by (simp add: d_jcc_def)
  note inst = start_skipping[OF dec pre at, of demo_ops demo_an block_b "[block_c]"
      "[d_false, d_sub]" block_b block_c demo_an]
  from inst have a: "check_path_satisfiability demo_ops demo_an [block_a, block_b, block_c] 12 =
       spec_fold demo_ops demo_an False
         [([d_jcc], block_a, block_b), ([d_false, d_sub], block_b, block_c)]"
    by (simp add: block_b_def)
  have b: "spec_fold demo_ops demo_an False
         [([d_jcc], block_a, block_b), ([d_false, d_sub], block_b, block_c)] =
       Inr (False, \<lparr>stored_context = None, tstate = 3,
                    trace = [Translate i_sub, SolverAdd (Ext ''sub''),
                             SolverAdd (Eq (BitVec 1 ''t0_1'') 1), SolverCheck,
                             Translate i_false, SolverAdd (Ext ''false''), Translate i_sub,
                             SolverAdd (Ext ''sub''), SolverCheck]\<rparr>)"
    by (simp add: demo_defs bind_def add_instruction_def solver_add_def branch_var_goal_def
        add_constraint_def get_operand_var_def)
  from inst have "spec_translate_all demo_ops block_b block_c demo_an [d_false, d_sub] =
       Inr (foldl (add_instruction demo_ops) demo_an (concat (map ir_instrs [d_false, d_sub])))"
    by (simp add: demo_defs)
  then have c: "spec_translate_all demo_ops block_b block_c demo_an [d_false, d_sub] =
       Inr \<lparr>stored_context = None, tstate = 2,
            trace = [Translate i_false, SolverAdd (Ext ''false''), Translate i_sub,
                     SolverAdd (Ext ''sub'')]\<rparr>"
    by (simp add: demo_defs add_instruction_def solver_add_def)
  from dec a b c show ?thesis by simp
qed

text \<open>
  What the property leaves out. With a start address that is no address of the first
  block the search goes on in the following blocks: with 22, an address of the second
  block, the first instruction of \<open>block_b\<close> is passed over; with 11, no instruction's
  address, nothing is translated at all.
\<close>

lemma start_address_elsewhere:
  "check_path_satisfiability demo_ops demo_an [block_a, block_b, block_c] 22 =
     Inr (True, \<lparr>stored_context = None, tstate = 1,
                 trace = [SolverCheck, Translate i_sub, SolverAdd (Ext ''sub''), SolverCheck]\<rparr>)
   \<and> check_path_satisfiability demo_ops demo_an [block_a, block_b, block_c] 11 =
     Inr (True, \<lparr>stored_context = None, tstate = 0, trace = [SolverCheck, SolverCheck]\<rparr>)"
  by (simp add: check_path_satisfiability_def demo_defs bind_def add_instruction_def
      solver_add_def)

subsection \<open>A JCC that does not end the block\<close>

text \<open>
  C5. Let \<open>d\<close> be a native instruction whose last byte is not the last byte of the
  current block. The instruction loop on \<open>d\<close> returns without raising, whatever the
  instructions: each JCC is reported with \<^verbatim>\<open>logger.error\<close> and nothing else is
  done for it (it is not handed to the translator and no assertion is added), and every
  other instruction, before or after a JCC, is translated and its assertions are added.
  The loop over the native instructions then goes on with the instructions after \<open>d\<close>.
  And a call on a path of two blocks that starts at \<open>d\<close>, with no JCC in the later
  native instructions of the block other than such misplaced ones, does not raise: it
  logs every JCC, translates every other instruction from \<open>d\<close> to the end of the block,
  asks the solver once and returns its answer.
\<close>

theorem misplaced_jcc:
  assumes "di_address d + asm_instr_size d - 1 \<noteq> end_address c"
  shows "(\<exists>an' evs.
           reil_loop ops c n d an rs = Inr an'
         \<and> an' = foldl (spec_log_or_translate ops d) an rs
         \<and> trace an' = trace an @ evs
         \<and> (\<forall>j. mnemonic j = JCC \<longrightarrow> Translate j \<notin> set evs)
         \<and> (\<forall>j\<in>set rs. mnemonic j = JCC \<longrightarrow> LogError (di_address d) j \<in> set evs)
         \<and> (\<forall>j\<in>set rs. mnemonic j \<noteq> JCC \<longrightarrow> Translate j \<in> set evs))
       \<and> (found \<or> di_address d = start_address \<longrightarrow>
            dinstr_loop ops start_address c n found an (d # post) =
              dinstr_loop ops start_address c n True
                (foldl (spec_log_or_translate ops d) an (ir_instrs d)) post)
       \<and> (instrs c = skipped @ d # post \<longrightarrow>
            (\<forall>x\<in>set skipped. di_address x \<noteq> start_address) \<longrightarrow>
            di_address d = start_address \<longrightarrow>
            (\<forall>x\<in>set post. (\<exists>i\<in>set (ir_instrs x). mnemonic i = JCC) \<longrightarrow>
               di_address x + asm_instr_size x - 1 \<noteq> end_address c) \<longrightarrow>
            check_path_satisfiability ops an [c, n] start_address =
              (let an1 = foldl (\<lambda>a x. foldl (spec_log_or_translate ops x) a (ir_instrs x))
                           an (d # post)
               in Inr (s_check ops (trace an1) = ''sat'',
                       an1\<lparr>trace := trace an1 @ [SolverCheck]\<rparr>)))"
proof -
  have loop: "reil_loop ops c n d an rs = Inr (foldl (spec_log_or_translate ops d) an rs)" for an rs
    using assms by (rule misplaced_loop)
  have one: "\<exists>an' evs.
           reil_loop ops c n d an rs = Inr an'
         \<and> an' = foldl (spec_log_or_translate ops d) an rs
         \<and> trace an' = trace an @ evs
         \<and> (\<forall>j. mnemonic j = JCC \<longrightarrow> Translate j \<notin> set evs)
         \<and> (\<forall>j\<in>set rs. mnemonic j = JCC \<longrightarrow> LogError (di_address d) j \<in> set evs)
         \<and> (\<forall>j\<in>set rs. mnemonic j \<noteq> JCC \<longrightarrow> Translate j \<in> set evs)"
    using loop[of an rs] log_or_translate_trace[of ops d an rs] by blast
  have two: "dinstr_loop ops start_address c n found an (d # post) =
              dinstr_loop ops start_address c n True
                (foldl (spec_log_or_translate ops d) an (ir_instrs d)) post"
    if "found \<or> di_address d = start_address"
    using that by (auto simp: loop bind_def)
  have three: "check_path_satisfiability ops an [c, n] start_address =
              (let an1 = foldl (\<lambda>a x. foldl (spec_log_or_translate ops x) a (ir_instrs x))
                           an (d # post)
               in Inr (s_check ops (trace an1) = ''sat'',
                       an1\<lparr>trace := trace an1 @ [SolverCheck]\<rparr>))"
    if h: "instrs c = skipped @ d # post" "\<forall>x\<in>set skipped. di_address x \<noteq> start_address"
      "di_address d = start_address"
      "\<forall>x\<in>set post. (\<exists>i\<in>set (ir_instrs x). mnemonic i = JCC) \<longrightarrow>
               di_address x + asm_instr_size x - 1 \<noteq> end_address c"
  proof -
    have all: "\<forall>x\<in>set (d # post). (\<exists>i\<in>set (ir_instrs x). mnemonic i = JCC) \<longrightarrow>
               di_address x + asm_instr_size x - 1 \<noteq> end_address c"
      using assms h(4) by simp
    have "dinstr_loop ops start_address c n False an (instrs c) =
          dinstr_loop ops start_address c n True an (d # post)"
      unfolding h(1) using h(2,3) by (rule dinstr_loop_start)
    also have "\<dots> = Inr (True, foldl (\<lambda>a x. foldl (spec_log_or_translate ops x) a (ir_instrs x))
                           an (d # post))"
      using all by (rule lenient_instructions)
    finally show ?thesis
      by (simp add: check_path_satisfiability_def bind_def Let_def del: dinstr_loop.simps foldl_Cons)
  qed
  from one two three show ?thesis by blast
qed

theorem misplaced_jcc_witness:
  "di_address d_early + asm_instr_size d_early - 1 \<noteq> end_address block_e
   \<and> reil_loop demo_ops block_e block_b d_early demo_an [i_jcc, i_add] =
       Inr \<lparr>stored_context = None, tstate = 1,
            trace = [LogError 10 i_jcc, Translate i_add, SolverAdd (Ext ''add'')]\<rparr>
   \<and> dinstr_loop demo_ops 10 block_e block_b False demo_an [d_early, d_tail] =
       Inr (True, \<lparr>stored_context = None, tstate = 2,
            trace = [LogError 10 i_jcc, Translate i_add, SolverAdd (Ext ''add''),
                     Translate i_sub, SolverAdd (Ext ''sub'')]\<rparr>)
   \<and> check_path_satisfiability demo_ops demo_an [block_e, block_b] 10 =
       Inr (True, \<lparr>stored_context = None, tstate = 2,
            trace = [LogError 10 i_jcc, Translate i_add, SolverAdd (Ext ''add''),
                     Translate i_sub, SolverAdd (Ext ''sub''), SolverCheck]\<rparr>)"
proof -
  have pos: "di_address d_early + asm_instr_size d_early - 1 \<noteq> end_address block_e"
    by (simp add: d_early_def block_e_def)
  have at: "False \<or> di_address d_early = 10" by (simp add: d_early_def)
  have dec: "instrs block_e = [] @ d_early # [d_tail]" by (simp add: block_e_def)
  have skipped: "\<forall>x\<in>set []. di_address x \<noteq> (10::int)" by simp
  have start: "di_address d_early = 10" by (simp add: d_early_def)
  have later: "\<forall>x\<in>set [d_tail]. (\<exists>i\<in>set (ir_instrs x). mnemonic i = JCC) \<longrightarrow>
               di_address x + asm_instr_size x - 1 \<noteq> end_address block_e"
    by (simp add: d_tail_def i_sub_def)
  note inst = misplaced_jcc[OF pos, of demo_ops block_b demo_an "[i_jcc, i_add]" False 10
      "[d_tail]" "[]"]
  from inst[THEN conjunct1]
  have "reil_loop demo_ops block_e block_b d_early demo_an [i_jcc, i_add] =
      Inr (foldl (spec_log_or_translate demo_ops d_early) demo_an [i_jcc, i_add])"
    by blast
  then have a: "reil_loop demo_ops block_e block_b d_early demo_an [i_jcc, i_add] =
       Inr \<lparr>stored_context = None, tstate = 1,
            trace = [LogError 10 i_jcc, Translate i_add, SolverAdd (Ext ''add'')]\<rparr>"
    by (simp add: demo_defs spec_log_or_translate_def add_instruction_def solver_add_def)
  have "dinstr_loop demo_ops 10 block_e block_b False demo_an [d_early, d_tail] =
          dinstr_loop demo_ops 10 block_e block_b True
            (foldl (spec_log_or_translate demo_ops d_early) demo_an (ir_instrs d_early))
            [d_tail]"
    by (rule inst[THEN conjunct2, THEN conjunct1, THEN mp, OF at])
  also have "\<dots> = Inr (True, \<lparr>stored_context = None, tstate = 2,
            trace = [LogError 10 i_jcc, Translate i_add, SolverAdd (Ext ''add''),
                     Translate i_sub, SolverAdd (Ext ''sub'')]\<rparr>)"
    by (simp add: demo_defs spec_log_or_translate_def add_instruction_def solver_add_def
        bind_def)
  finally have b: "dinstr_loop demo_ops 10 block_e block_b False demo_an [d_early, d_tail] =
       Inr (True, \<lparr>stored_context = None, tstate = 2,
            trace = [LogError 10 i_jcc, Translate i_add, SolverAdd (Ext ''add''),
                     Translate i_sub, SolverAdd (Ext ''sub'')]\<rparr>)" .
  have "check_path_satisfiability demo_ops demo_an [block_e, block_b] 10 =
              (let an1 = foldl (\<lambda>a x. foldl (spec_log_or_translate demo_ops x) a (ir_instrs x))
                           demo_an (d_early # [d_tail])
               in Inr (s_check demo_ops (trace an1) = ''sat'',
                       an1\<lparr>trace := trace an1 @ [SolverCheck]\<rparr>))"
    by (rule inst[THEN conjunct2, THEN conjunct2, THEN mp, OF dec, THEN mp, OF skipped,
          THEN mp, OF start, THEN mp, OF later])
  also have "\<dots> = Inr (True, \<lparr>stored_context = None, tstate = 2,
            trace = [LogError 10 i_jcc, Translate i_add, SolverAdd (Ext ''add''),
                     Translate i_sub, SolverAdd (Ext ''sub''), SolverCheck]\<rparr>)"
    by (simp add: demo_defs spec_log_or_translate_def add_instruction_def solver_add_def Let_def)
  finally have c: "check_path_satisfiability demo_ops demo_an [block_e, block_b] 10 =
       Inr (True, \<lparr>stored_context = None, tstate = 2,
            trace = [LogError 10 i_jcc, Translate i_add, SolverAdd (Ext ''add''),
                     Translate i_sub, SolverAdd (Ext ''sub''), SolverCheck]\<rparr>)" .
  from pos a b c show ?thesis by simp
qed

subsection \<open>Lowering a context\<close>

text \<open>
  C6. \<open>set_context\<close> stores the context and appends to the trace, after what was there
  (nothing is reset), one assertion for each entry of the context and nothing else: for a
  register, that the bit-vector of the register's size named by the translator's initial
  name of the register equals its value; for a flag, the same with size 32; for a memory
  entry, that the translator's memory array read at the address equals the value.
\<close>

theorem set_context_assertions:
  "set_context ops an ctx =
     an\<lparr>stored_context := Some ctx,
        trace := trace an @
          map (\<lambda>(k, r). SolverAdd (Eq (BitVec (reg_size r)
                 (t_get_init_name ops (tstate an) (reg_name r))) (reg_value r)))
              (registers ctx) @
          map (\<lambda>(k, f). SolverAdd (Eq (BitVec 32
                 (t_get_init_name ops (tstate an) (flag_name f))) (flag_value f)))
              (flags ctx) @
          map (\<lambda>(addr, v). SolverAdd (Eq (Select (t_get_memory ops (tstate an)) addr) v))
              (memory ctx)\<rparr>
   \<and> length (trace (set_context ops an ctx)) =
       length (trace an) + length (registers ctx) + length (flags ctx) + length (memory ctx)"
  by (simp add: set_context_def Let_def add_registers_eq add_flags_eq add_memory_eq)

theorem set_context_assertions_witness:
  "set_context demo_ops demo_an demo_context =
     \<lparr>stored_context = Some demo_context, tstate = 0,
      trace = [SolverAdd (Eq (BitVec 32 ''eax_0'') 5),
               SolverAdd (Eq (BitVec 32 ''zf_0'') 1),
               SolverAdd (Eq (Select (Ext ''MEM_1'') 4096) 255),
               SolverAdd (Eq (Select (Ext ''MEM_1'') 4097) 1)]\<rparr>"
  using set_context_assertions[of demo_ops demo_an demo_context]
  by (simp add: demo_ops_def demo_an_def demo_context_def)

subsection \<open>Registers\<close>

text \<open>
  C7. With mode \<^verbatim>\<open>pre\<close> or \<^verbatim>\<open>post\<close>, and \<open>registers_size\<close> holding the
  sizes looked up: for a name in \<open>alias_mapper\<close>, mapped to a base register and an
  offset, \<open>get_register_expr\<close> returns the extraction, at that offset and of the
  name's own size, from the bit-vector of the base register's size named by the
  translator's initial (\<^verbatim>\<open>pre\<close>) or current (\<^verbatim>\<open>post\<close>) name of the base
  register; for a name not in \<open>alias_mapper\<close> it returns the bit-vector of the name's
  size named by the translator's initial or current name of that register.
\<close>

theorem get_register_expr_cases:
  assumes "mode = ''pre'' \<or> mode = ''post''"
  shows "(alias_mapper arch name = Some (base, offset) \<longrightarrow>
            registers_size arch base = Some base_width \<longrightarrow>
            registers_size arch name = Some width \<longrightarrow>
            get_register_expr ops arch ts name mode =
              Inr (Extract (BitVec base_width
                     (if mode = ''pre'' then t_get_init_name ops ts base
                      else t_get_curr_name ops ts base)) offset width))
       \<and> (alias_mapper arch name = None \<longrightarrow>
            registers_size arch name = Some width \<longrightarrow>
            get_register_expr ops arch ts name mode =
              Inr (BitVec width
                     (if mode = ''pre'' then t_get_init_name ops ts name
                      else t_get_curr_name ops ts name)))"
  using assms
  by (auto simp: get_register_expr_def get_var_name_def lookup_def bind_def)

theorem get_register_expr_cases_witness:
  "get_register_expr demo_ops demo_arch 0 ''ax'' ''post'' =
     Inr (Extract (BitVec 32 ''eax_1'') 0 16)
   \<and> get_register_expr demo_ops demo_arch 0 ''ebx'' ''pre'' = Inr (BitVec 32 ''ebx_0'')"
  using get_register_expr_cases[of "''post''" demo_arch "''ax''" "''eax''" 0 32 16 demo_ops 0]
    get_register_expr_cases[of "''pre''" demo_arch "''ebx''" "''eax''" 0 32 32 demo_ops 0]
  by (simp add: demo_ops_def demo_arch_def)

text \<open>
  What the property leaves out: any other mode raises, and so does a register without an
  entry in \<open>registers_size\<close>.
\<close>

lemma get_register_expr_invalid_mode:
  "mode \<noteq> ''pre'' \<Longrightarrow> mode \<noteq> ''post'' \<Longrightarrow>
     get_register_expr ops arch ts name mode = Inl (Exception '''')"
  by (simp add: get_register_expr_def get_var_name_def bind_def split: option.splits)

lemma get_register_expr_no_size:
  "mode = ''pre'' \<or> mode = ''post'' \<Longrightarrow> alias_mapper arch name = None \<Longrightarrow>
     registers_size arch name = None \<Longrightarrow>
     get_register_expr ops arch ts name mode = Inl (KeyError name)"
  by (auto simp: get_register_expr_def get_var_name_def lookup_def bind_def)

subsection \<open>Memory\<close>

text \<open>
  C8. \<open>get_memory_expr\<close> returns the concatenation, in fields of 8 bits, of the reads
  of the memory array at \<open>address\<close>, \<open>address + 1\<close>, ..., \<open>address + sz - 1\<close>, passed in
  reverse, the read at the highest address first; the array is the translator's initial
  one for mode \<^verbatim>\<open>pre\<close> and its current one for mode \<^verbatim>\<open>post\<close>, and any other
  mode raises the exception of \<open>get_memory\<close>. With the first argument of a concatenation
  the most significant, the byte at \<open>address + i\<close> weighs \<open>256 ^ i\<close>: the byte at the
  lowest address is the least significant.
\<close>

theorem get_memory_expr_little_endian:
  "(let bytes = (\<lambda>mem. rev (map (\<lambda>index. Select mem (address + index)) [0 .. sz - 1]))
    in get_memory_expr ops ts address sz mode =
         (if mode = ''pre'' then Inr (Concat 8 (bytes (t_get_memory_init ops ts)))
          else if mode = ''post'' then Inr (Concat 8 (bytes (t_get_memory ops ts)))
          else Inl (Exception ''''))
       \<and> length (bytes mem) = nat sz
       \<and> concat_value 8 (map \<rho> (bytes mem)) =
           (\<Sum>i<nat sz. \<rho> (Select mem (address + int i)) * 256 ^ i))"
proof -
  let ?bytes = "\<lambda>mem. rev (map (\<lambda>index. Select mem (address + index)) [0 .. sz - 1])"
  have expr: "get_memory_expr ops ts address sz mode =
         (if mode = ''pre'' then Inr (Concat 8 (?bytes (t_get_memory_init ops ts)))
          else if mode = ''post'' then Inr (Concat 8 (?bytes (t_get_memory ops ts)))
          else Inl (Exception ''''))"
    by (simp add: get_memory_expr_def get_memory_def bind_def memory_reads_eq)
  let ?vals = "map \<rho> (map (\<lambda>index. Select mem (address + index)) [0 .. sz - 1])"
  have "concat_value 8 (rev ?vals) = (\<Sum>i<length ?vals. ?vals ! i * (2 ^ nat 8) ^ i)"
    by (rule concat_value_rev)
  also have "\<dots> = (\<Sum>i<nat sz. \<rho> (Select mem (address + int i)) * 256 ^ i)"
    by (rule sum.cong) (simp_all add: nth_upto)
  finally have val: "concat_value 8 (map \<rho> (?bytes mem)) =
       (\<Sum>i<nat sz. \<rho> (Select mem (address + int i)) * 256 ^ i)"
    by (simp add: rev_map)
  have len: "length (?bytes mem) = nat sz" by simp
  from expr len val show ?thesis unfolding Let_def by blast
qed

theorem get_memory_expr_little_endian_witness:
  "get_memory_expr demo_ops 0 4096 4 ''post'' =
     Inr (Concat 8 [Select (Ext ''MEM_1'') 4099, Select (Ext ''MEM_1'') 4098,
                    Select (Ext ''MEM_1'') 4097, Select (Ext ''MEM_1'') 4096])
   \<and> get_memory_expr demo_ops 0 4096 4 ''mid'' = Inl (Exception '''')
   \<and> concat_value 8 [4, 3, 2, 1] = 67305985"
  using get_memory_expr_little_endian[unfolded Let_def, THEN conjunct1,
      of demo_ops 0 4096 4 "''post''"]
    get_memory_expr_little_endian[unfolded Let_def, THEN conjunct1,
      of demo_ops 0 4096 4 "''mid''"]
  by (simp add: demo_ops_def upto.simps concat_value_def)

subsection \<open>Operands\<close>

text \<open>
  C9. For a register operand whose name is an architectural register,
  \<open>get_operand_expr\<close> is \<open>get_register_expr\<close> of the name; for any other register
  operand it is the bit-vector of the operand's size named by the translator's initial
  (mode \<^verbatim>\<open>pre\<close>) or current (mode \<^verbatim>\<open>post\<close>) name of the register; for an
  immediate operand it is the constant of the operand's size and value; any other operand
  raises the exception with the message \<^verbatim>\<open>Invalid operand: \<close> followed by the
  operand.
\<close>

theorem get_operand_expr_cases:
  "(name \<in> registers_all arch \<longrightarrow>
      get_operand_expr ops arch ts (ReilRegisterOperand name sz) mode =
        get_register_expr ops arch ts name mode)
   \<and> (name \<notin> registers_all arch \<longrightarrow> mode = ''pre'' \<longrightarrow>
        get_operand_expr ops arch ts (ReilRegisterOperand name sz) mode =
          Inr (BitVec sz (t_get_init_name ops ts name)))
   \<and> (name \<notin> registers_all arch \<longrightarrow> mode = ''post'' \<longrightarrow>
        get_operand_expr ops arch ts (ReilRegisterOperand name sz) mode =
          Inr (BitVec sz (t_get_curr_name ops ts name)))
   \<and> get_operand_expr ops arch ts (ReilImmediateOperand immediate sz) mode =
        Inr (Constant sz immediate)
   \<and> get_operand_expr ops arch ts (OtherOperand str) mode =
        Inl (Exception (''Invalid operand: '' @ str))"
  by (simp add: get_var_name_def bind_def get_immediate_expr_def)

theorem get_operand_expr_cases_witness:
  "get_operand_expr demo_ops demo_arch 0 (ReilRegisterOperand ''ax'' 16) ''post'' =
     get_register_expr demo_ops demo_arch 0 ''ax'' ''post''
   \<and> get_operand_expr demo_ops demo_arch 0 (ReilRegisterOperand ''t0'' 1) ''pre'' =
       Inr (BitVec 1 ''t0_0'')
   \<and> get_operand_expr demo_ops demo_arch 0 (ReilRegisterOperand ''t0'' 1) ''post'' =
       Inr (BitVec 1 ''t0_1'')
   \<and> get_operand_expr demo_ops demo_arch 0 (ReilImmediateOperand 7 8) ''post'' =
       Inr (Constant 8 7)
   \<and> get_operand_expr demo_ops demo_arch 0 (OtherOperand ''empty'') ''post'' =
       Inl (Exception ''Invalid operand: empty'')"
  using get_operand_expr_cases[of "''ax''" demo_arch demo_ops 0 16 "''post''" 7 "''empty''"]
    get_operand_expr_cases[of "''t0''" demo_arch demo_ops 0 1 "''pre''" 7 "''empty''"]
    get_operand_expr_cases[of "''t0''" demo_arch demo_ops 0 1 "''post''" 7 "''empty''"]
  by (simp add: demo_ops_def demo_arch_def get_immediate_expr_def)

subsection \<open>Paths of fewer than two blocks\<close>

text \<open>
  C10. On a path of fewer than two blocks \<open>check_path_satisfiability\<close> returns
  \<open>False\<close> and leaves the analyzer as it was: nothing is translated, nothing is added to
  the solver and the solver is not asked.
\<close>

theorem short_path:
  "length path < 2 \<Longrightarrow> check_path_satisfiability ops an path start_address = Inr (False, an)"
  by (cases path) (auto simp: check_path_satisfiability_def)

theorem short_path_witness:
  "check_path_satisfiability demo_ops demo_an [block_a] 10 = Inr (False, demo_an)
   \<and> check_path_satisfiability demo_ops demo_an [] 10 = Inr (False, demo_an)"
  using short_path[of "[block_a]" demo_ops demo_an 10] short_path[of "[]" demo_ops demo_an 10]
  by simp

end
